theory Spec2Isabelle
  imports Main "HOL-Library.Word" "HOL-Library.AList"
begin

unbundle bit_operations_syntax

section \<open>Device tables (analysis/frame\_rules.py)\<close>

text \<open>
  Python integers are unbounded; every FAR and every field handled here is non-negative,
  so they are modelled as \<open>nat\<close> with the bit operations of the source
  (\<open>>>\<close> is \<open>drop_bit\<close>, \<open><<\<close> is \<open>push_bit\<close>, \<open>&\<close> is \<open>AND\<close>,
  \<open>|\<close> is \<open>OR\<close>).
\<close>

subsection \<open>FrameAddress\<close>

definition BLOCK_TYPE_START :: nat where "BLOCK_TYPE_START = 23"
definition TOP_BIT :: nat where "TOP_BIT = 22"
definition MAJOR_START :: nat where "MAJOR_START = 17"
definition MINOR_START :: nat where "MINOR_START = 0"
definition MAX_BLOCK_TYPE :: nat where "MAX_BLOCK_TYPE = 7"
definition TOTAL_COLUMNS :: nat where "TOTAL_COLUMNS = 48"
definition MAX_MAJOR :: nat where "MAX_MAJOR = TOTAL_COLUMNS - 1"

text \<open>The dictionary returned by \<open>FrameAddress.decode\<close>, one field per key.\<close>

record far_fields =
  fa_block_type :: nat
  fa_top_bottom :: nat
  fa_major :: nat
  fa_minor :: nat

definition decode :: "nat \<Rightarrow> far_fields" where
  "decode far_value =
     \<lparr> fa_block_type = drop_bit BLOCK_TYPE_START far_value AND 0x7,
       fa_top_bottom = drop_bit TOP_BIT far_value AND 0x1,
       fa_major = drop_bit MAJOR_START far_value AND 0x3F,
       fa_minor = drop_bit MINOR_START far_value AND 0x1FFFF \<rparr>"

definition encode :: "nat \<Rightarrow> nat \<Rightarrow> nat \<Rightarrow> nat \<Rightarrow> nat" where
  "encode block_type top_bottom major minor =
     (let far_value = 0;
          far_value = far_value OR push_bit BLOCK_TYPE_START (block_type AND 0x7);
          far_value = far_value OR push_bit TOP_BIT (top_bottom AND 0x1);
          far_value = far_value OR push_bit MAJOR_START (major AND 0x3F);
          far_value = far_value OR push_bit MINOR_START (minor AND 0x1FFFF)
      in far_value)"

subsection \<open>BlockType\<close>

definition CLB :: nat where "CLB = 0"
definition IOB :: nat where "IOB = 1"
definition BRAM_CONTENT :: nat where "BRAM_CONTENT = 2"
definition BRAM_INT :: nat where "BRAM_INT = 3"
definition DSP :: nat where "DSP = 4"
definition CLK :: nat where "CLK = 5"
definition CFG :: nat where "CFG = 6"
definition RESERVED :: nat where "RESERVED = 7"

text \<open>
  \<open>BlockType.PROPERTIES\<close> has entries for CLB, IOB, BRAM\_CONTENT, BRAM\_INT and CLK only;
  \<open>props.get(key, False)\<close> gives \<open>False\<close> for every other block type.
\<close>

definition contains_routing :: "nat \<Rightarrow> bool" where
  "contains_routing block_type =
     (if block_type = CLB then True
      else if block_type = IOB then True
      else if block_type = BRAM_CONTENT then False
      else if block_type = BRAM_INT then True
      else if block_type = CLK then True
      else False)"

definition contains_logic :: "nat \<Rightarrow> bool" where
  "contains_logic block_type =
     (if block_type = CLB then True
      else if block_type = IOB then False
      else if block_type = BRAM_CONTENT then True
      else if block_type = BRAM_INT then False
      else if block_type = CLK then False
      else False)"

subsection \<open>ColumnClassification\<close>

text \<open>
  \<open>COLUMN_MAP\<close>: column index to (column type, tile types, frames per column,
  routing frames, logic frames), entry by entry as in the source.
\<close>

type_synonym column_entry = "string \<times> string list \<times> nat \<times> nat \<times> nat"

definition COLUMN_MAP :: "(nat \<times> column_entry) list" where
  "COLUMN_MAP =
   [(0, (''IOB'', [''LIOI'', ''INT''], 54, 54, 0)),
    (1, (''CLB'', [''CLBLL'', ''INT''], 36, 22, 14)),
    (2, (''CLB'', [''CLBLM'', ''INT''], 36, 22, 14)),
    (3, (''CLB'', [''CLBLL'', ''INT''], 36, 22, 14)),
    (4, (''BRAM'', [''BRAM'', ''BRAM_INT''], 92, 28, 64)),
    (5, (''CLB'', [''CLBLL'', ''INT''], 36, 22, 14)),
    (6, (''CLB'', [''CLBLM'', ''INT''], 36, 22, 14)),
    (7, (''CLB'', [''CLBLL'', ''INT''], 36, 22, 14)),
    (8, (''BRAM'', [''BRAM'', ''BRAM_INT''], 92, 28, 64)),
    (9, (''CLB'', [''CLBLL'', ''INT''], 36, 22, 14)),
    (10, (''CLB'', [''CLBLM'', ''INT''], 36, 22, 14)),
    (11, (''CLB'', [''CLBLL'', ''INT''], 36, 22, 14)),
    (12, (''BRAM'', [''BRAM'', ''BRAM_INT''], 92, 28, 64)),
    (13, (''CLB'', [''CLBLL'', ''INT''], 36, 22, 14)),
    (14, (''CLB'', [''CLBLM'', ''INT''], 36, 22, 14)),
    (15, (''CLB'', [''CLBLL'', ''INT''], 36, 22, 14)),
    (16, (''BRAM'', [''BRAM'', ''BRAM_INT''], 92, 28, 64)),
    (17, (''CLB'', [''CLBLL'', ''INT''], 36, 22, 14)),
    (18, (''CLB'', [''CLBLM'', ''INT''], 36, 22, 14)),
    (19, (''CLB'', [''CLBLL'', ''INT''], 36, 22, 14)),
    (20, (''BRAM'', [''BRAM'', ''BRAM_INT''], 92, 28, 64)),
    (21, (''CLB'', [''CLBLL'', ''INT''], 36, 22, 14)),
    (22, (''CLB'', [''CLBLM'', ''INT''], 36, 22, 14)),
    (23, (''CLK'', [''HCLK'', ''INT''], 4, 4, 0)),
    (24, (''CLK'', [''HCLK'', ''INT''], 4, 4, 0)),
    (25, (''CLB'', [''CLBLL'', ''INT''], 36, 22, 14)),
    (26, (''CLB'', [''CLBLM'', ''INT''], 36, 22, 14)),
    (27, (''CLB'', [''CLBLL'', ''INT''], 36, 22, 14)),
    (28, (''BRAM'', [''BRAM'', ''BRAM_INT''], 92, 28, 64)),
    (29, (''CLB'', [''CLBLL'', ''INT''], 36, 22, 14)),
    (30, (''CLB'', [''CLBLM'', ''INT''], 36, 22, 14)),
    (31, (''CLB'', [''CLBLL'', ''INT''], 36, 22, 14)),
    (32, (''BRAM'', [''BRAM'', ''BRAM_INT''], 92, 28, 64)),
    (33, (''CLB'', [''CLBLL'', ''INT''], 36, 22, 14)),
    (34, (''CLB'', [''CLBLM'', ''INT''], 36, 22, 14)),
    (35, (''CLB'', [''CLBLL'', ''INT''], 36, 22, 14)),
    (36, (''BRAM'', [''BRAM'', ''BRAM_INT''], 92, 28, 64)),
    (37, (''CLB'', [''CLBLL'', ''INT''], 36, 22, 14)),
    (38, (''CLB'', [''CLBLM'', ''INT''], 36, 22, 14)),
    (39, (''CLB'', [''CLBLL'', ''INT''], 36, 22, 14)),
    (40, (''BRAM'', [''BRAM'', ''BRAM_INT''], 92, 28, 64)),
    (41, (''CLB'', [''CLBLL'', ''INT''], 36, 22, 14)),
    (42, (''CLB'', [''CLBLM'', ''INT''], 36, 22, 14)),
    (43, (''CLB'', [''CLBLL'', ''INT''], 36, 22, 14)),
    (44, (''BRAM'', [''BRAM'', ''BRAM_INT''], 92, 28, 64)),
    (45, (''CLB'', [''CLBLL'', ''INT''], 36, 22, 14)),
    (46, (''CLB'', [''CLBLM'', ''INT''], 36, 22, 14)),
    (47, (''IOB'', [''RIOI'', ''INT''], 54, 54, 0))]"

definition get_column_type :: "nat \<Rightarrow> string" where
  "get_column_type major =
     (case map_of COLUMN_MAP major of
        Some (ct, tts, fpc, rf, lf) \<Rightarrow> ct
      | None \<Rightarrow> ''UNKNOWN'')"

definition get_tile_types_in_column :: "nat \<Rightarrow> string list" where
  "get_tile_types_in_column major =
     (case map_of COLUMN_MAP major of
        Some (ct, tts, fpc, rf, lf) \<Rightarrow> tts
      | None \<Rightarrow> [])"

definition get_frames_per_column :: "nat \<Rightarrow> nat" where
  "get_frames_per_column major =
     (case map_of COLUMN_MAP major of
        Some (ct, tts, fpc, rf, lf) \<Rightarrow> fpc
      | None \<Rightarrow> 0)"

definition get_routing_frames_count :: "nat \<Rightarrow> nat" where
  "get_routing_frames_count major =
     (case map_of COLUMN_MAP major of
        Some (ct, tts, fpc, rf, lf) \<Rightarrow> rf
      | None \<Rightarrow> 0)"

definition get_logic_frames_count :: "nat \<Rightarrow> nat" where
  "get_logic_frames_count major =
     (case map_of COLUMN_MAP major of
        Some (ct, tts, fpc, rf, lf) \<Rightarrow> lf
      | None \<Rightarrow> 0)"

text \<open>\<open>FrameAddress.validate\<close>, without the message text.\<close>

definition validate :: "nat \<Rightarrow> bool" where
  "validate far_value =
     (let fields = decode far_value in
      if fa_block_type fields > MAX_BLOCK_TYPE then False
      else if fa_major fields > MAX_MAJOR then False
      else if get_column_type (fa_major fields) = ''UNKNOWN'' then False
      else if fa_minor fields \<ge> get_frames_per_column (fa_major fields) then False
      else True)"

section \<open>Column mapper (analysis/assembler/column\_mapper.py)\<close>

datatype ColumnType = CT_CLB | CT_IOB | CT_BRAM | CT_CLK | CT_UNKNOWN

text \<open>\<open>ColumnType(col_type_str)\<close> with its \<open>except ValueError\<close> fallback.\<close>

definition ColumnType_of :: "string \<Rightarrow> ColumnType" where
  "ColumnType_of s =
     (if s = ''CLB'' then CT_CLB
      else if s = ''IOB'' then CT_IOB
      else if s = ''BRAM'' then CT_BRAM
      else if s = ''CLK'' then CT_CLK
      else CT_UNKNOWN)"

record ColumnDescriptor =
  column_index :: nat
  column_type :: ColumnType
  tile_types :: "string list"
  frames_per_column :: nat
  routing_frame_count :: nat
  logic_frame_count :: nat
  cd_contains_routing :: bool
  cd_contains_logic :: bool
  block_type_default :: nat
  is_security_critical :: bool

text \<open>One iteration of the loop of \<open>ColumnMapper._build_column_descriptors\<close>.\<close>

definition build_column_descriptor :: "nat \<Rightarrow> ColumnDescriptor" where
  "build_column_descriptor col_idx =
     (let col_type = ColumnType_of (get_column_type col_idx);
          routing_frames = get_routing_frames_count col_idx;
          logic_frames = get_logic_frames_count col_idx
      in \<lparr> column_index = col_idx,
           column_type = col_type,
           tile_types = get_tile_types_in_column col_idx,
           frames_per_column = get_frames_per_column col_idx,
           routing_frame_count = routing_frames,
           logic_frame_count = logic_frames,
           cd_contains_routing = (routing_frames > 0),
           cd_contains_logic = (logic_frames > 0),
           block_type_default =
             (if col_type = CT_CLB then CLB
              else if col_type = CT_BRAM then BRAM_CONTENT
              else if col_type = CT_IOB then IOB
              else if col_type = CT_CLK then CLK
              else CLB),
           is_security_critical =
             (col_type = CT_CLB \<or> col_type = CT_BRAM \<or> col_type = CT_IOB \<or> col_type = CT_CLK) \<rparr>)"

text \<open>
  The descriptors are built for \<open>range(TOTAL_COLUMNS)\<close>; \<open>dict.get\<close> gives \<open>None\<close>
  for any other index.
\<close>

definition get_column_descriptor :: "nat \<Rightarrow> ColumnDescriptor option" where
  "get_column_descriptor column_index' =
     (if column_index' < TOTAL_COLUMNS then Some (build_column_descriptor column_index')
      else None)"

definition get_block_type_for_minor :: "ColumnDescriptor \<Rightarrow> nat \<Rightarrow> nat" where
  "get_block_type_for_minor d minor =
     (if column_type d = CT_BRAM then (if minor < 28 then BRAM_INT else BRAM_CONTENT)
      else block_type_default d)"

definition cd_is_routing_frame :: "ColumnDescriptor \<Rightarrow> nat \<Rightarrow> bool" where
  "cd_is_routing_frame d minor = (minor < routing_frame_count d)"

section \<open>Forward frame mapper (analysis/assembler/frame\_mapper.py)\<close>

datatype ResourceCategory = ROUTING | LOGIC | MEMORY | CLOCK | IO | CONTROL | UNKNOWN

text \<open>
  \<open>FrameMapper._classify_resources\<close>. The source builds a Python set by successive
  \<open>add\<close> calls; the model builds the same set by successive \<open>insert\<close>.
\<close>

definition classify_resources :: "nat \<Rightarrow> ColumnDescriptor \<Rightarrow> nat \<Rightarrow> ResourceCategory set" where
  "classify_resources block_type column_desc minor =
     (let categories = {};
          categories = (if contains_routing block_type then insert ROUTING categories
                        else categories);
          categories = (if contains_logic block_type then insert LOGIC categories
                        else categories);
          categories =
            (if block_type = CLB then
               (if cd_is_routing_frame column_desc minor then insert ROUTING categories
                else insert LOGIC categories)
             else if block_type = IOB then insert ROUTING (insert IO categories)
             else if block_type = BRAM_CONTENT then insert MEMORY categories
             else if block_type = BRAM_INT then insert ROUTING categories
             else if block_type = CLK then insert ROUTING (insert CLOCK categories)
             else categories);
          categories = (if block_type \<in> {CLB, IOB, CLK} then insert CONTROL categories
                        else categories)
      in if categories \<noteq> {} then categories else {UNKNOWN})"

text \<open>Decimal rendering of a number inside an f-string.\<close>

fun str_nat :: "nat \<Rightarrow> string" where
  "str_nat n =
     (if n < 10 then [char_of (48 + n)]
      else str_nat (n div 10) @ [char_of (48 + n mod 10)])"

declare str_nat.simps [simp del]

text \<open>
  \<open>_calculate_tile_range\<close> and \<open>_generate_tile_names\<close>: twenty tile rows per frame,
  the top half starting at row 80, clamped to the 160 rows of the device.
\<close>

definition calculate_tile_range :: "nat \<Rightarrow> nat \<Rightarrow> nat \<times> nat" where
  "calculate_tile_range minor top_bottom =
     (let tiles_per_frame = 20;
          y_base = (if top_bottom = 1 then 80 else 0);
          y_start = y_base + minor * tiles_per_frame;
          y_end = y_start + tiles_per_frame;
          y_end = min y_end 160
      in (y_start, y_end))"

definition generate_tile_names :: "string list \<Rightarrow> nat \<Rightarrow> nat \<times> nat \<Rightarrow> string list" where
  "generate_tile_names tts x yr =
     concat (map (\<lambda>tile_type.
               map (\<lambda>y. tile_type @ ''_X'' @ str_nat x @ ''Y'' @ str_nat y)
                   [fst yr ..< snd yr]) tts)"

text \<open>
  The fields of \<open>FrameCoverage\<close> that the detector and the claims read. The risk level,
  the attack-vector strings, the bit ranges and the warning texts are computed after the
  classification and never feed back into it; they are left out.
\<close>

record FrameCoverage =
  tiles_affected :: "string list"
  resource_categories :: "ResourceCategory set"
  is_routing_frame :: bool
  is_logic_frame :: bool
  is_memory_frame :: bool
  is_clock_frame :: bool
  is_io_frame :: bool
  is_valid :: bool

definition create_invalid_coverage :: FrameCoverage where
  "create_invalid_coverage =
     \<lparr> tiles_affected = [],
       resource_categories = {UNKNOWN},
       is_routing_frame = False,
       is_logic_frame = False,
       is_memory_frame = False,
       is_clock_frame = False,
       is_io_frame = False,
       is_valid = False \<rparr>"

definition map_frame :: "nat \<Rightarrow> FrameCoverage" where
  "map_frame far_value =
     (let valid = validate far_value;
          fields = decode far_value;
          block_type_id = fa_block_type fields;
          top_bottom = fa_top_bottom fields;
          major = fa_major fields;
          minor = fa_minor fields
      in case get_column_descriptor major of
           None \<Rightarrow> create_invalid_coverage
         | Some column_desc \<Rightarrow>
             (let expected_block = get_block_type_for_minor column_desc minor;
                  no_warnings = (valid \<and> expected_block = block_type_id);
                  tile_range = calculate_tile_range minor top_bottom;
                  tiles = generate_tile_names (tile_types column_desc) major tile_range;
                  categories = classify_resources block_type_id column_desc minor
              in \<lparr> tiles_affected = tiles,
                   resource_categories = categories,
                   is_routing_frame = (ROUTING \<in> categories),
                   is_logic_frame = (LOGIC \<in> categories),
                   is_memory_frame = (MEMORY \<in> categories),
                   is_clock_frame = (CLOCK \<in> categories),
                   is_io_frame = (IO \<in> categories),
                   is_valid = (valid \<and> no_warnings) \<rparr>))"

section \<open>Frame data (src/mapping/integration/frame\_obj\_adapter.py)\<close>

text \<open>Every \<open>raise\<close> of the modelled code, and the exceptions Python itself raises there.\<close>

datatype error = NameError | ValueError | IndexError | TypeError | RuntimeError

type_synonym bytes = "8 word list"

text \<open>
  \<open>AdaptedFrame\<close>. The hexadecimal rendering \<open>far_hex\<close> of \<open>far_value\<close> is left out.
  The class defines neither \<open>__bool__\<close> nor \<open>__len__\<close>, so every instance is truthy
  and \<open>if not frame\<close> tests for \<open>None\<close> only.
\<close>

record AdaptedFrame =
  far_value :: nat
  af_block_type :: nat
  af_top_bottom :: nat
  af_column :: nat
  af_major :: nat
  af_minor :: nat
  frame_data :: bytes
  frame_index :: nat
  data_word_count :: nat

text \<open>
  \<open>FrameDataExtractor.extract_bit\<close>: most significant bit first inside each byte.
  Indexing \<open>frame_data[byte_index]\<close> past the end raises \<open>IndexError\<close>.
\<close>

definition extract_bit :: "bytes \<Rightarrow> nat \<Rightarrow> error + bool" where
  "extract_bit fd bit_offset =
     (if \<not> bit_offset < 1312 then Inl ValueError
      else let byte_index = bit_offset div 8;
               bit_in_byte = 7 - bit_offset mod 8
           in if byte_index < length fd then Inr (bit (fd ! byte_index) bit_in_byte)
              else Inl IndexError)"

text \<open>The loop of \<open>compare_frames\<close> over the bit offsets still to visit.\<close>

fun compare_loop :: "bytes \<Rightarrow> bytes \<Rightarrow> nat list \<Rightarrow> error + nat list" where
  "compare_loop frame1 frame2 [] = Inr []"
| "compare_loop frame1 frame2 (bit_offset # rest) =
     (case extract_bit frame1 bit_offset of
        Inl e \<Rightarrow> Inl e
      | Inr bit1 \<Rightarrow>
          (case extract_bit frame2 bit_offset of
             Inl e \<Rightarrow> Inl e
           | Inr bit2 \<Rightarrow>
               (case compare_loop frame1 frame2 rest of
                  Inl e \<Rightarrow> Inl e
                | Inr differences \<Rightarrow>
                    Inr (if bit1 \<noteq> bit2 then bit_offset # differences else differences))))"

definition compare_frames :: "bytes \<Rightarrow> bytes \<Rightarrow> error + nat list" where
  "compare_frames frame1 frame2 =
     (if length frame1 \<noteq> length frame2 then Inl ValueError
      else compare_loop frame1 frame2 [0 ..< 1312])"

text \<open>\<open>bin(byte).count('1')\<close> and its sum over the frame.\<close>

definition popcount8 :: "8 word \<Rightarrow> nat" where
  "popcount8 b = length (filter (bit b) [0 ..< 8])"

definition count_set_bits :: "bytes \<Rightarrow> nat" where
  "count_set_bits fd = sum_list (map popcount8 fd)"

section \<open>Loaded bitstream (src/mapping/integration/bitstream\_loader.py)\<close>

text \<open>
  A Python \<open>dict\<close> is an association list updated in place (\<open>AList.update\<close>) and read
  with \<open>map_of\<close>; its length is the number of keys. Of \<open>LoadedBitstream\<close> the frame
  list and the two indices the detector reads are kept.
\<close>

record LoadedBitstream =
  frames :: "AdaptedFrame list"
  frame_by_far :: "(nat \<times> AdaptedFrame) list"
  write_history :: "(nat \<times> AdaptedFrame list) list"

definition build_indices_step :: "AdaptedFrame \<Rightarrow> LoadedBitstream \<Rightarrow> LoadedBitstream" where
  "build_indices_step frame s =
     s\<lparr> frame_by_far := AList.update (far_value frame) frame (frame_by_far s),
        write_history :=
          AList.update (far_value frame)
            ((case map_of (write_history s) (far_value frame) of
                None \<Rightarrow> [] | Some h \<Rightarrow> h) @ [frame])
            (write_history s) \<rparr>"

text \<open>\<open>LoadedBitstream.__init__\<close> followed by \<open>_build_indices\<close>.\<close>

definition loaded_bitstream :: "AdaptedFrame list \<Rightarrow> LoadedBitstream" where
  "loaded_bitstream fs =
     fold build_indices_step fs \<lparr> frames = fs, frame_by_far = [], write_history = [] \<rparr>"

definition bs_get_frame :: "LoadedBitstream \<Rightarrow> nat \<Rightarrow> AdaptedFrame option" where
  "bs_get_frame s far = map_of (frame_by_far s) far"

definition bs_get_write_history :: "LoadedBitstream \<Rightarrow> nat \<Rightarrow> AdaptedFrame list" where
  "bs_get_write_history s far =
     (case map_of (write_history s) far of None \<Rightarrow> [] | Some h \<Rightarrow> h)"

definition get_all_far_values :: "LoadedBitstream \<Rightarrow> nat list" where
  "get_all_far_values s = sort (map fst (frame_by_far s))"

section \<open>Golden baseline (src/detector/baseline)\<close>

text \<open>
  \<open>configured_fars\<close> is a Python set of integers, kept as a list without a meaning for
  order or repetition; \<open>used_tiles\<close> is a set of tile names, only ever tested for
  membership.
\<close>

record GoldenBaseline =
  g_frames :: "(nat \<times> AdaptedFrame) list"
  g_write_history :: "(nat \<times> bytes list) list"
  configured_fars :: "nat list"
  used_tiles :: "string set"

definition empty_baseline :: GoldenBaseline where
  "empty_baseline =
     \<lparr> g_frames = [], g_write_history = [], configured_fars = [], used_tiles = {} \<rparr>"

definition add_frame :: "AdaptedFrame \<Rightarrow> GoldenBaseline \<Rightarrow> GoldenBaseline" where
  "add_frame frame g =
     g\<lparr> g_frames := AList.update (far_value frame) frame (g_frames g),
        configured_fars := List.insert (far_value frame) (configured_fars g) \<rparr>"

definition set_write_history :: "nat \<times> bytes list \<Rightarrow> GoldenBaseline \<Rightarrow> GoldenBaseline" where
  "set_write_history entry g =
     (if snd entry \<noteq> [] then
        g\<lparr> g_write_history := AList.update (fst entry) (snd entry) (g_write_history g) \<rparr>
      else g)"

text \<open>
  \<open>GoldenBaselineBuilder.build_from_loaded\<close>, then \<open>set_used_tiles\<close>: the frames are
  added in order and the write history of every FAR is copied as raw payloads.
\<close>

definition build_from_loaded :: "LoadedBitstream \<Rightarrow> string set \<Rightarrow> GoldenBaseline" where
  "build_from_loaded loaded tiles =
     (let golden = fold add_frame (frames loaded) empty_baseline;
          golden = fold set_write_history
                     (map (\<lambda>(far, history). (far, map frame_data history))
                          (write_history loaded)) golden
      in golden\<lparr> used_tiles := tiles \<rparr>)"

definition g_get_frame :: "GoldenBaseline \<Rightarrow> nat \<Rightarrow> AdaptedFrame option" where
  "g_get_frame g far = map_of (g_frames g) far"

definition g_get_write_history :: "GoldenBaseline \<Rightarrow> nat \<Rightarrow> bytes list" where
  "g_get_write_history g far =
     (case map_of (g_write_history g) far of None \<Rightarrow> [] | Some h \<Rightarrow> h)"

definition is_tile_used :: "GoldenBaseline \<Rightarrow> string \<Rightarrow> bool" where
  "is_tile_used g tile_name = (tile_name \<in> used_tiles g)"

text \<open>
  Iterating a Python set of integers visits every element once, in an order the language
  leaves open. The model visits them in ascending order; the theorems below speak of
  membership and counts only.
\<close>

definition set_iter :: "nat list \<Rightarrow> nat list" where
  "set_iter xs = sort (remdups xs)"

definition get_expected_frames :: "GoldenBaseline \<Rightarrow> nat list" where
  "get_expected_frames g = set_iter (configured_fars g)"

section \<open>Anomaly model (src/detector/differential/frame\_anomaly.py)\<close>

datatype AnomalyType =
  FRAME_ADDED | FRAME_REMOVED | FRAME_MODIFIED | UNUSED_REGION_MOD
  | ROUTING_CHANGE | LOGIC_CHANGE | CLOCK_CHANGE | IO_CHANGE

datatype SeverityLevel = CRITICAL | HIGH | MEDIUM | LOW | INFO

text \<open>
  \<open>FrameAnomaly\<close>. The identifier, the hexadecimal and block-type names, the two
  free-text fields, the floating-point confidence and the timestamp are left out: the
  detector writes them and no decision reads them.
\<close>

record FrameAnomaly =
  anomaly_type :: AnomalyType
  severity :: SeverityLevel
  a_far_value :: nat
  a_block_type :: nat
  a_column :: nat
  a_minor :: nat
  a_top_bottom :: nat
  a_tiles_affected :: "string list"
  tiles_used :: "string list"
  tiles_unused :: "string list"
  bits_changed :: nat
  changed_bit_positions :: "nat list"
  a_is_routing_frame :: bool
  a_is_logic_frame :: bool
  a_is_clock_frame :: bool
  a_is_io_frame :: bool
  golden_data :: "bytes option"
  suspect_data :: "bytes option"
  attack_vectors :: "string list"
  transient :: bool

definition is_in_unused_region :: "FrameAnomaly \<Rightarrow> bool" where
  "is_in_unused_region a = (length (tiles_unused a) > length (tiles_used a))"

text \<open>
  \<open>AnomalyReport\<close>, with \<open>verdict\<close> for the verdict line of the summary text and
  \<open>type_counts\<close> keyed by the anomaly type (the source keys it by the type's string).
\<close>

record AnomalyReport =
  anomalies :: "FrameAnomaly list"
  total_frames_compared :: nat
  frames_with_differences :: nat
  total_bits_changed :: nat
  critical_count :: nat
  high_count :: nat
  medium_count :: nat
  low_count :: nat
  type_counts :: "(AnomalyType \<times> nat) list"
  trojan_detected :: bool
  verdict :: string

definition new_report :: AnomalyReport where
  "new_report =
     \<lparr> anomalies = [], total_frames_compared = 0, frames_with_differences = 0,
       total_bits_changed = 0, critical_count = 0, high_count = 0, medium_count = 0,
       low_count = 0, type_counts = [], trojan_detected = False, verdict = [] \<rparr>"

definition add_anomaly :: "FrameAnomaly \<Rightarrow> AnomalyReport \<Rightarrow> AnomalyReport" where
  "add_anomaly anomaly r =
     (let r = r\<lparr> anomalies := anomalies r @ [anomaly] \<rparr>;
          r = (if severity anomaly = CRITICAL then r\<lparr> critical_count := critical_count r + 1 \<rparr>
               else if severity anomaly = HIGH then r\<lparr> high_count := high_count r + 1 \<rparr>
               else if severity anomaly = MEDIUM then r\<lparr> medium_count := medium_count r + 1 \<rparr>
               else if severity anomaly = LOW then r\<lparr> low_count := low_count r + 1 \<rparr>
               else r);
          r = r\<lparr> type_counts :=
                  AList.update (anomaly_type anomaly)
                    ((case map_of (type_counts r) (anomaly_type anomaly) of
                        None \<Rightarrow> 0 | Some c \<Rightarrow> c) + 1)
                    (type_counts r) \<rparr>;
          r = r\<lparr> total_bits_changed := total_bits_changed r + bits_changed anomaly \<rparr>
      in if bits_changed anomaly > 0
         then r\<lparr> frames_with_differences := frames_with_differences r + 1 \<rparr>
         else r)"

definition generate_summary :: "AnomalyReport \<Rightarrow> string" where
  "generate_summary r =
     (let routing_mods = length (filter a_is_routing_frame (anomalies r)) in
      if trojan_detected r then ''TROJAN DETECTED''
      else if high_count r > 0 \<or> medium_count r > 0 then ''SUSPICIOUS MODIFICATIONS FOUND''
      else if length (anomalies r) > 0 \<or> routing_mods > 0 \<or> total_bits_changed r > 0
        then ''MODIFICATIONS DETECTED''
      else ''NO SIGNIFICANT ANOMALIES'')"

definition finalize :: "AnomalyReport \<Rightarrow> AnomalyReport" where
  "finalize r =
     (let r = r\<lparr> trojan_detected := (critical_count r > 0 \<or> high_count r \<ge> 3) \<rparr>
      in r\<lparr> verdict := generate_summary r \<rparr>)"

section \<open>Differential detector (src/detector/differential/frame\_differential\_detector.py)\<close>

definition min_bits_for_significance :: nat where
  "min_bits_for_significance = 5"

text \<open>
  A \<open>for\<close> loop that extends a list with what each iteration yields; the first
  iteration that raises ends the loop with its exception.
\<close>

fun extend_all :: "(error + 'a list) list \<Rightarrow> error + 'a list" where
  "extend_all [] = Inr []"
| "extend_all (r # rs) =
     (case r of
        Inl e \<Rightarrow> Inl e
      | Inr xs \<Rightarrow> (case extend_all rs of Inl e \<Rightarrow> Inl e | Inr ys \<Rightarrow> Inr (xs @ ys)))"

text \<open>\<open>anomaly = ...; if anomaly: anomalies.append(anomaly)\<close>.\<close>

definition append_if :: "error + 'a option \<Rightarrow> error + 'a list" where
  "append_if r =
     (case r of Inl e \<Rightarrow> Inl e | Inr None \<Rightarrow> Inr [] | Inr (Some a) \<Rightarrow> Inr [a])"

definition create_added_frame_anomaly :: "nat \<Rightarrow> LoadedBitstream \<Rightarrow> FrameAnomaly option" where
  "create_added_frame_anomaly far suspect =
     (case bs_get_frame suspect far of
        None \<Rightarrow> None
      | Some suspect_frame \<Rightarrow>
          (let coverage = map_frame far in
           Some \<lparr> anomaly_type = FRAME_ADDED,
                  severity = MEDIUM,
                  a_far_value = far,
                  a_block_type = af_block_type suspect_frame,
                  a_column = af_column suspect_frame,
                  a_minor = af_minor suspect_frame,
                  a_top_bottom = af_top_bottom suspect_frame,
                  a_tiles_affected = tiles_affected coverage,
                  tiles_used = [],
                  tiles_unused = [],
                  bits_changed = count_set_bits (frame_data suspect_frame),
                  changed_bit_positions = [],
                  a_is_routing_frame = is_routing_frame coverage,
                  a_is_logic_frame = is_logic_frame coverage,
                  a_is_clock_frame = is_clock_frame coverage,
                  a_is_io_frame = is_io_frame coverage,
                  golden_data = None,
                  suspect_data = Some (frame_data suspect_frame),
                  attack_vectors = [],
                  transient = False \<rparr>))"

text \<open>
  \<open>_create_removed_frame_anomaly\<close>. Once the golden frame is found, the source builds
  \<open>FrameAnomaly(...)\<close> with the keyword argument \<open>golden_data=reference\<close>. The name
  \<open>reference\<close> is bound nowhere in this function or its module, so evaluating the
  argument list raises \<open>NameError\<close> before any anomaly exists; the arguments evaluated
  before it (the coverage lookup, \<open>count_set_bits\<close>, the formatted strings) cannot raise.
\<close>

definition create_removed_frame_anomaly ::
    "nat \<Rightarrow> GoldenBaseline \<Rightarrow> error + FrameAnomaly option" where
  "create_removed_frame_anomaly far golden =
     (case g_get_frame golden far of
        None \<Rightarrow> Inr None
      | Some golden_frame \<Rightarrow> Inl NameError)"

text \<open>
  \<open>_create_modified_frame_anomaly\<close>. The parameters \<open>write_index\<close> and
  \<open>transient_note\<close> only enter the free-text fields and are left out.
\<close>

definition create_modified_frame_anomaly ::
    "AdaptedFrame \<Rightarrow> AdaptedFrame \<Rightarrow> bool \<Rightarrow> bytes option \<Rightarrow> error + FrameAnomaly option" where
  "create_modified_frame_anomaly golden_frame suspect_frame is_transient reference_data =
     (let far = far_value golden_frame;
          reference = (case reference_data of Some d \<Rightarrow> d | None \<Rightarrow> frame_data golden_frame)
      in case compare_frames reference (frame_data suspect_frame) of
           Inl e \<Rightarrow> Inl e
         | Inr diff_bits \<Rightarrow>
             if length diff_bits < min_bits_for_significance then Inr None
             else
               (let coverage = map_frame far;
                    atype = (if is_routing_frame coverage then ROUTING_CHANGE
                             else if is_logic_frame coverage then LOGIC_CHANGE
                             else if is_clock_frame coverage then CLOCK_CHANGE
                             else if is_io_frame coverage then IO_CHANGE
                             else FRAME_MODIFIED)
                in Inr (Some
                     \<lparr> anomaly_type = atype,
                       severity = MEDIUM,
                       a_far_value = far,
                       a_block_type = af_block_type golden_frame,
                       a_column = af_column golden_frame,
                       a_minor = af_minor golden_frame,
                       a_top_bottom = af_top_bottom golden_frame,
                       a_tiles_affected = tiles_affected coverage,
                       tiles_used = [],
                       tiles_unused = [],
                       bits_changed = length diff_bits,
                       changed_bit_positions = take 100 diff_bits,
                       a_is_routing_frame = is_routing_frame coverage,
                       a_is_logic_frame = is_logic_frame coverage,
                       a_is_clock_frame = is_clock_frame coverage,
                       a_is_io_frame = is_io_frame coverage,
                       golden_data = Some reference,
                       suspect_data = Some (frame_data suspect_frame),
                       attack_vectors = (if is_transient then [''transient_payload''] else []),
                       transient = is_transient \<rparr>)))"

definition detect_structural_differences ::
    "GoldenBaseline \<Rightarrow> LoadedBitstream \<Rightarrow> error + FrameAnomaly list" where
  "detect_structural_differences golden suspect =
     (let golden_fars = get_expected_frames golden;
          suspect_fars = set_iter (get_all_far_values suspect);
          added_fars = filter (\<lambda>far. far \<notin> set golden_fars) suspect_fars;
          removed_fars = filter (\<lambda>far. far \<notin> set suspect_fars) golden_fars
      in extend_all
           (map (\<lambda>far. append_if (Inr (create_added_frame_anomaly far suspect))) added_fars
            @ map (\<lambda>far. append_if (create_removed_frame_anomaly far golden)) removed_fars))"

definition detect_transient_history_mismatches ::
    "AdaptedFrame \<Rightarrow> AdaptedFrame list \<Rightarrow> bytes list \<Rightarrow> error + FrameAnomaly list" where
  "detect_transient_history_mismatches golden_frame suspect_history golden_history =
     (let zipped = min (length suspect_history) (length golden_history) in
      extend_all
        (map (\<lambda>idx.
                let suspect_frame = suspect_history ! idx;
                    expected_data = golden_history ! idx
                in if frame_data suspect_frame \<noteq> expected_data
                   then append_if (create_modified_frame_anomaly golden_frame suspect_frame
                                     True (Some expected_data))
                   else Inr [])
             [0 ..< zipped]
         @ (if length suspect_history > length golden_history
            then map (\<lambda>idx.
                        append_if (create_modified_frame_anomaly golden_frame
                                     (suspect_history ! idx) True
                                     (Some (frame_data golden_frame))))
                     [zipped ..< length suspect_history]
            else [])))"

text \<open>The body of the loop of \<open>_detect_data_differences\<close> for one common FAR.\<close>

definition data_difference_at ::
    "GoldenBaseline \<Rightarrow> LoadedBitstream \<Rightarrow> nat \<Rightarrow> error + FrameAnomaly list" where
  "data_difference_at golden suspect far =
     (case (g_get_frame golden far, bs_get_frame suspect far) of
        (Some golden_frame, Some suspect_frame) \<Rightarrow>
          if frame_data golden_frame \<noteq> frame_data suspect_frame
          then append_if (create_modified_frame_anomaly golden_frame suspect_frame False None)
          else
            (let golden_history = g_get_write_history golden far;
                 suspect_history = bs_get_write_history suspect far
             in if golden_history \<noteq> [] \<and> suspect_history \<noteq> []
                then detect_transient_history_mismatches golden_frame suspect_history
                       golden_history
                else Inr [])
      | _ \<Rightarrow> Inr [])"

definition detect_data_differences ::
    "GoldenBaseline \<Rightarrow> LoadedBitstream \<Rightarrow> error + FrameAnomaly list" where
  "detect_data_differences golden suspect =
     (let golden_fars = get_expected_frames golden;
          suspect_fars = set_iter (get_all_far_values suspect);
          common_fars = filter (\<lambda>far. far \<in> set suspect_fars) golden_fars
      in extend_all (map (data_difference_at golden suspect) common_fars))"

text \<open>The body of the loop of \<open>_classify_anomalies\<close>.\<close>

definition classify_anomaly :: "GoldenBaseline \<Rightarrow> FrameAnomaly \<Rightarrow> FrameAnomaly" where
  "classify_anomaly golden anomaly =
     (let used = filter (is_tile_used golden) (a_tiles_affected anomaly);
          unused = filter (\<lambda>tile. \<not> is_tile_used golden tile) (a_tiles_affected anomaly);
          anomaly = anomaly\<lparr> tiles_used := used, tiles_unused := unused \<rparr>
      in if length unused > length used \<and> anomaly_type anomaly = FRAME_MODIFIED
         then anomaly\<lparr> anomaly_type := UNUSED_REGION_MOD \<rparr>
         else anomaly)"

text \<open>\<open>_calculate_severity\<close>: the severity and the attack vectors it returns.\<close>

definition calculate_severity :: "FrameAnomaly \<Rightarrow> SeverityLevel \<times> string list" where
  "calculate_severity anomaly =
     (let (sev, vectors) =
            (if a_is_clock_frame anomaly
               then (CRITICAL, [''clock_manipulation'', ''timing_attack''])
             else if a_is_io_frame anomaly \<and> is_in_unused_region anomaly
               then (CRITICAL, [''data_exfiltration'', ''covert_channel''])
             else if a_is_routing_frame anomaly \<and> is_in_unused_region anomaly
               then (if 5 \<le> bits_changed anomaly \<and> bits_changed anomaly \<le> 50
                     then (CRITICAL, [''routing_detour'', ''hidden_routing_trojan'',
                                      ''minimal_footprint_trojan''])
                     else (HIGH, [''routing_detour'', ''hidden_routing_trojan'']))
             else if a_is_routing_frame anomaly \<and> length (tiles_used anomaly) > 0
               then (HIGH, [''routing_detour'', ''path_manipulation''])
             else if a_is_logic_frame anomaly \<and> is_in_unused_region anomaly
               then (MEDIUM, [''hidden_logic'', ''trojan_payload''])
             else if anomaly_type anomaly = FRAME_ADDED
               then (if is_in_unused_region anomaly
                     then (MEDIUM, [''unauthorized_configuration''])
                     else (LOW, []))
             else if anomaly_type anomaly = FRAME_REMOVED
               then (LOW, [])
             else (LOW, []))
      in if transient anomaly then
           (let vectors = (if ''transient_payload'' \<notin> set vectors
                           then vectors @ [''transient_payload''] else vectors)
            in if sev \<in> {LOW, MEDIUM} then (HIGH, vectors) else (sev, vectors))
         else (sev, vectors))"

text \<open>The body of the loop of \<open>_assess_severity\<close>.\<close>

definition assess_anomaly :: "FrameAnomaly \<Rightarrow> FrameAnomaly" where
  "assess_anomaly anomaly =
     (let (sev, vectors) = calculate_severity anomaly
      in anomaly\<lparr> severity := sev, attack_vectors := vectors \<rparr>)"

text \<open>
  \<open>detect\<close>. The report holds references to the anomaly objects, so the lists mutated
  by phases 3 and 4 are the ones the report returns; the counters of the report were
  written by \<open>add_anomaly\<close> in phases 1 and 2 and are read, not recomputed, by
  \<open>finalize\<close>.
\<close>

definition detect :: "GoldenBaseline \<Rightarrow> LoadedBitstream \<Rightarrow> error + AnomalyReport" where
  "detect golden suspect =
     (case detect_structural_differences golden suspect of
        Inl e \<Rightarrow> Inl e
      | Inr structural_anomalies \<Rightarrow>
          (case detect_data_differences golden suspect of
             Inl e \<Rightarrow> Inl e
           | Inr data_anomalies \<Rightarrow>
               (let report = fold add_anomaly structural_anomalies new_report;
                    report = fold add_anomaly data_anomalies report;
                    report = report\<lparr> anomalies := map (classify_anomaly golden) (anomalies report) \<rparr>;
                    report = report\<lparr> anomalies := map assess_anomaly (anomalies report) \<rparr>;
                    report = report\<lparr> total_frames_compared :=
                                       length (g_frames golden) + length (frames suspect) \<rparr>
                in Inr (finalize report))))"

section \<open>Configuration packet lexer (src/parser/payload\_lexer.py)\<close>

datatype Opcode = NOP | READ | WRITE | SYNC

text \<open>\<open>opcode.get(f"{_op:02b}")\<close> for the two-bit field \<open>_op\<close>.\<close>

definition opcode :: "nat \<Rightarrow> Opcode" where
  "opcode op = (if op = 0 then NOP else if op = 1 then READ else if op = 2 then WRITE else SYNC)"

definition MajorMinors :: "(nat \<times> nat) list" where
  "MajorMinors =
     [(0, 36), (1, 36), (2, 36), (3, 30), (4, 36), (5, 28), (6, 36), (7, 54),
      (8, 36), (9, 30), (10, 36), (11, 28), (12, 36), (13, 54), (14, 36)]"

definition Blocks :: "(nat \<times> string) list" where
  "Blocks = [(0, ''CLB''), (1, ''BRAM''), (3, ''DSP''), (4, ''IO'')]"

definition Blocks_Majors :: "(string \<times> nat list) list" where
  "Blocks_Majors =
     [(''CLB'', [0, 1, 2, 4, 6, 8, 10, 12, 14]),
      (''BRAM'', [3, 9]),
      (''DSP'', [5, 11]),
      (''IO'', [7, 13])]"

datatype Packet =
  FAR Opcode nat nat "bytes option"
  | FDRI Opcode nat "bytes list list"

text \<open>
  \<open>FrameObj\<close>; \<open>far_raw\<close> is the eight-digit hexadecimal text of the packed FAR and is
  kept as the number it denotes. \<open>data_words\<close> holds the four-byte words of the chunk.
\<close>

record FrameObj =
  far_raw :: nat
  fo_block_type :: nat
  fo_top_bottom :: nat
  fo_column :: nat
  fo_major :: nat
  fo_minor :: nat
  data_words :: "bytes list"
  idx :: nat

text \<open>The five start fields \<open>[block, top_bottom, column, major, minor]\<close>.\<close>

type_synonym start_fields = "nat \<times> nat \<times> nat \<times> nat \<times> nat"

record FrameLexer =
  lx_pos :: nat
  lx_toks :: "Packet list"
  lx_result :: "FrameObj list"
  lx_last_far :: "start_fields option"

definition new_lexer :: FrameLexer where
  "new_lexer = \<lparr> lx_pos = 0, lx_toks = [], lx_result = [], lx_last_far = None \<rparr>"

text \<open>\<open>advance\<close> (and \<open>nextPacket\<close>): the next \<open>width = 4\<close> bytes, if they are all there.\<close>

definition advance :: "bytes \<Rightarrow> nat \<Rightarrow> bytes option \<times> nat" where
  "advance payload p =
     (if p + 4 \<le> length payload then (Some (take 4 (drop p payload)), p + 4)
      else (None, p))"

text \<open>\<open>struct.unpack(">I", packet)\<close> and \<open>int.from_bytes(far, 'big')\<close>.\<close>

definition from_bytes_big :: "bytes \<Rightarrow> nat" where
  "from_bytes_big bs = foldl (\<lambda>acc b. acc * 256 + unat b) 0 bs"

definition max_minor :: "nat \<Rightarrow> nat option" where
  "max_minor column = map_of MajorMinors column"

definition major_list_for_block :: "nat \<Rightarrow> nat list option" where
  "major_list_for_block code =
     (case map_of Blocks code of
        None \<Rightarrow> None
      | Some name \<Rightarrow> map_of Blocks_Majors name)"

text \<open>\<open>next_block_code\<close>: the first populated block code among the ten after \<open>code\<close>.\<close>

definition next_block_code :: "nat \<Rightarrow> nat option" where
  "next_block_code code =
     (case filter (\<lambda>candidate. map_of Blocks candidate \<noteq> None) [code + 1 ..< code + 11] of
        [] \<Rightarrow> None
      | candidate # _ \<Rightarrow> Some candidate)"

definition pack_far :: "nat \<Rightarrow> nat \<Rightarrow> nat \<Rightarrow> nat \<Rightarrow> nat" where
  "pack_far block top_bottom column minor =
     (let major = push_bit 5 (top_bottom AND 0x1) OR (column AND 0x1F)
      in push_bit 29 (block AND 0x7) OR push_bit 23 (major AND 0x3F)
         OR push_bit 17 (minor AND 0x3F))"

definition interpret_far :: "bytes option \<Rightarrow> error + start_fields" where
  "interpret_far far =
     (case far of
        None \<Rightarrow> Inl ValueError
      | Some bs \<Rightarrow>
          (let far_hex = from_bytes_big bs;
               block = drop_bit 29 far_hex AND 0b111;
               major = drop_bit 23 far_hex AND 0b111111;
               top_bottom = drop_bit 5 major AND 0b1;
               column = major AND 0b11111;
               minor = drop_bit 17 far_hex AND 0b111111
           in Inr (block, top_bottom, column, major, minor)))"

text \<open>The loop \<open>for _ in range(n)\<close> of \<open>do_lexing\<close> that reads the body of a Type-2 packet.\<close>

fun read_words :: "bytes \<Rightarrow> nat \<Rightarrow> nat \<Rightarrow> bytes list \<times> nat" where
  "read_words payload p 0 = ([], p)"
| "read_words payload p (Suc n) =
     (case advance payload p of
        (None, p') \<Rightarrow> ([], p')
      | (Some word, p') \<Rightarrow>
          (let (ws, p'') = read_words payload p' n in (word # ws, p'')))"

text \<open>\<open>[_payload[i:i+41] for i in range(0, len(_payload), 41)]\<close>.\<close>

definition chunk_frames :: "bytes list \<Rightarrow> bytes list list" where
  "chunk_frames ws =
     map (\<lambda>k. take 41 (drop (k * 41) ws)) [0 ..< (length ws + 40) div 41]"

text \<open>
  \<open>do_lexing\<close> on the four header bytes just taken; \<open>p\<close> is the read position after
  them, and the position after the packet is returned with it.
\<close>

definition do_lexing :: "bytes \<Rightarrow> bytes \<Rightarrow> nat \<Rightarrow> Packet option \<times> nat" where
  "do_lexing payload packet p =
     (let hdr = from_bytes_big packet;
          type = drop_bit 29 hdr AND 0x7;
          op = opcode (drop_bit 27 hdr AND 0x3)
      in if type = 0b001 then
           (let reg_address = drop_bit 13 hdr AND 0xFFFF;
                word_count = hdr AND 0x1FFF
            in if op = WRITE \<and> word_count = 1 then
                 (let (v, p') = advance payload p
                  in (Some (FAR op reg_address word_count v), p'))
               else (None, p))
         else if type = 0b010 then
           (let word_count = hdr AND 0x1FFFFFF;
                (ws, p') = read_words payload p word_count
            in (Some (FDRI op word_count (chunk_frames ws)), p'))
         else (None, p))"

text \<open>
  The state of the column walker of \<open>generate_frames\<close>: the local variables that
  survive from one iteration of the \<open>while\<close> loop to the next.
\<close>

record walker =
  w_block :: nat
  w_top_bottom :: nat
  w_column :: nat
  w_minor :: nat
  w_major_list :: "nat list"
  w_maj_idx :: nat

text \<open>
  The part of the loop body after a frame has been emitted: from \<open>next_minor = minor + 1\<close>
  to the end of the iteration.
\<close>

definition walker_step :: "walker \<Rightarrow> error + walker" where
  "walker_step w =
     (let next_minor = w_minor w + 1 in
      case max_minor (w_column w) of
        None \<Rightarrow> Inl ValueError
      | Some max_m \<Rightarrow>
          if next_minor < max_m then Inr (w\<lparr> w_minor := next_minor \<rparr>)
          else
            (let maj_idx = w_maj_idx w + 1 in
             if maj_idx < length (w_major_list w) then
               Inr (w\<lparr> w_minor := 0, w_maj_idx := maj_idx,
                       w_column := w_major_list w ! maj_idx \<rparr>)
             else
               (case next_block_code (w_block w) of
                  None \<Rightarrow>
                    (case major_list_for_block 0 of
                       None \<Rightarrow> Inl TypeError
                     | Some major_list \<Rightarrow>
                         Inr \<lparr> w_block = 0,
                               w_top_bottom = w_top_bottom w XOR 1,
                               w_column = major_list ! 0,
                               w_minor = 0,
                               w_major_list = major_list,
                               w_maj_idx = 0 \<rparr>)
                | Some next_block \<Rightarrow>
                    (case major_list_for_block next_block of
                       None \<Rightarrow> Inl ValueError
                     | Some major_list \<Rightarrow>
                         Inr \<lparr> w_block = next_block,
                               w_top_bottom = w_top_bottom w,
                               w_column = major_list ! 0,
                               w_minor = 0,
                               w_major_list = major_list,
                               w_maj_idx = 0 \<rparr>))))"

text \<open>The frame emitted at the head of an iteration.\<close>

definition emit_frame :: "walker \<Rightarrow> bytes list \<Rightarrow> nat \<Rightarrow> FrameObj" where
  "emit_frame w chunk i =
     \<lparr> far_raw = pack_far (w_block w) (w_top_bottom w) (w_column w) (w_minor w),
       fo_block_type = w_block w,
       fo_top_bottom = w_top_bottom w,
       fo_column = w_column w,
       fo_major = push_bit 5 (w_top_bottom w) OR (w_column w AND 0x1F),
       fo_minor = w_minor w,
       data_words = chunk,
       idx = i \<rparr>"

text \<open>
  The \<open>while created < total_needed and max_iter > 0\<close> loop: \<open>chunks\<close> are the payload
  frames not yet emitted, \<open>i\<close> is \<open>start_idx + created\<close>. Leaving the loop with
  chunks left over is the \<open>RuntimeError\<close> raised after it.
\<close>

fun generate_loop :: "walker \<Rightarrow> bytes list list \<Rightarrow> nat \<Rightarrow> nat \<Rightarrow> error + FrameObj list" where
  "generate_loop w [] i max_iter = Inr []"
| "generate_loop w (chunk # rest) i max_iter =
     (if max_iter = 0 then Inl RuntimeError
      else
        (case walker_step w of
           Inl e \<Rightarrow> Inl e
         | Inr w' \<Rightarrow>
             (case generate_loop w' rest (i + 1) (max_iter - 1) of
                Inl e \<Rightarrow> Inl e
              | Inr fs \<Rightarrow> Inr (emit_frame w chunk i # fs))))"

text \<open>\<open>major_list.index(column)\<close>: the first position of \<open>column\<close>, if any.\<close>

definition index_of :: "nat list \<Rightarrow> nat \<Rightarrow> nat option" where
  "index_of xs x = (if x \<in> set xs then Some (length (takeWhile (\<lambda>y. y \<noteq> x) xs)) else None)"

definition generate_frames ::
    "start_fields \<Rightarrow> bytes list list \<Rightarrow> nat \<Rightarrow> error + FrameObj list" where
  "generate_frames start payload_frames start_idx =
     (case start of (block, top_bottom, column, major, minor) \<Rightarrow>
        (case major_list_for_block block of
           None \<Rightarrow> Inl ValueError
         | Some major_list \<Rightarrow>
             (let (maj_idx, column) =
                    (case index_of major_list column of
                       Some k \<Rightarrow> (k, column)
                     | None \<Rightarrow> (0, major_list ! 0));
                  max_iter = length payload_frames * 4 + 1000
              in generate_loop
                   \<lparr> w_block = block, w_top_bottom = top_bottom, w_column = column,
                     w_minor = minor, w_major_list = major_list, w_maj_idx = maj_idx \<rparr>
                   payload_frames start_idx max_iter)))"

text \<open>
  One iteration of the \<open>while\<close> loop of \<open>lexer\<close>, entered with \<open>pos + 4 \<le> len(payload)\<close>.
  \<open>FAR\<close> and \<open>FDRI\<close> objects are always truthy, so \<open>if res\<close> tests for \<open>None\<close>.
\<close>

definition lexer_step :: "bytes \<Rightarrow> FrameLexer \<Rightarrow> error + FrameLexer" where
  "lexer_step payload lx =
     (let (packet, p) = advance payload (lx_pos lx) in
      case packet of
        None \<Rightarrow> Inr lx
      | Some pk \<Rightarrow>
          (case do_lexing payload pk p of
             (None, p') \<Rightarrow> Inr (lx\<lparr> lx_pos := p' \<rparr>)
           | (Some (FAR op reg wc v), p') \<Rightarrow>
               (case interpret_far v of
                  Inl e \<Rightarrow> Inl e
                | Inr far_tuple \<Rightarrow>
                    Inr (lx\<lparr> lx_pos := p',
                             lx_toks := lx_toks lx @ [FAR op reg wc v],
                             lx_last_far := Some far_tuple \<rparr>))
           | (Some (FDRI op wc payload_frames), p') \<Rightarrow>
               (case lx_last_far lx of
                  None \<Rightarrow> Inl ValueError
                | Some start \<Rightarrow>
                    (case generate_frames start payload_frames (length (lx_result lx)) of
                       Inl e \<Rightarrow> Inl e
                     | Inr fs \<Rightarrow>
                         Inr (lx\<lparr> lx_pos := p',
                                  lx_toks := lx_toks lx @ [FDRI op wc payload_frames],
                                  lx_result := lx_result lx @ fs \<rparr>)))))"

function lexer_loop :: "bytes \<Rightarrow> FrameLexer \<Rightarrow> error + FrameLexer" where
  "lexer_loop payload lx =
     (if lx_pos lx + 4 \<le> length payload then
        (case lexer_step payload lx of
           Inl e \<Rightarrow> Inl e
         | Inr lx' \<Rightarrow> lexer_loop payload lx')
      else Inr lx)"
  by pat_completeness auto
termination
proof (relation "measure (\<lambda>(payload, lx). length payload - lx_pos lx)")
  show "wf (measure (\<lambda>(payload, lx). length payload - lx_pos lx))"
    by simp
next
  fix payload :: bytes and lx lx' :: FrameLexer
  assume room: "lx_pos lx + 4 \<le> length payload"
    and step: "lexer_step payload lx = Inr lx'"
  have adv: "p \<le> p'" if "advance payload p = (x, p')" for p p' x
    using that by (auto simp: advance_def split: if_splits)
  have rw: "p \<le> p'" if "read_words payload p n = (ws, p')" for p p' n ws
    using that
  proof (induction n arbitrary: p ws)
    case 0
    then show ?case by simp
  next
    case (Suc n)
    show ?case
    proof (cases "p + 4 \<le> length payload")
      case True
      obtain ws' where "read_words payload (p + 4) n = (ws', p')"
        using Suc.prems True by (auto simp: advance_def split: prod.splits)
      then have "p + 4 \<le> p'" by (rule Suc.IH)
      then show ?thesis by simp
    next
      case False
      with Suc.prems show ?thesis by (simp add: advance_def)
    qed
  qed
  have dl: "p \<le> p'" if "do_lexing payload pk p = (r, p')" for pk p p' r
    using that
    by (auto simp: do_lexing_def Let_def split: prod.splits if_splits dest: adv rw)
  have first: "advance payload (lx_pos lx) =
      (Some (take 4 (drop (lx_pos lx) payload)), lx_pos lx + 4)"
    using room by (simp add: advance_def)
  have "lx_pos lx + 4 \<le> lx_pos lx'"
    using step
    by (auto simp: lexer_step_def first
             split: prod.splits option.splits Packet.splits sum.splits dest: dl)
  with room show "((payload, lx'), (payload, lx)) \<in>
      measure (\<lambda>(payload, lx). length payload - lx_pos lx)"
    by simp
qed

declare lexer_loop.simps [simp del]

definition lexer :: "bytes \<Rightarrow> error + FrameObj list" where
  "lexer payload =
     (case lexer_loop payload new_lexer of Inl e \<Rightarrow> Inl e | Inr lx \<Rightarrow> Inr (lx_result lx))"

section \<open>Notions used to state the properties\<close>

text \<open>
  The bit of a payload at an offset, most significant bit first, and the offsets at which
  two payloads differ; on payloads of equal length of at least 164 bytes this is what
  \<open>compare_frames\<close> returns.
\<close>

definition bit_at :: "bytes \<Rightarrow> nat \<Rightarrow> bool" where
  "bit_at fd off = bit (fd ! (off div 8)) (7 - off mod 8)"

definition differing_bits :: "bytes \<Rightarrow> bytes \<Rightarrow> nat list" where
  "differing_bits d1 d2 = filter (\<lambda>off. bit_at d1 off \<noteq> bit_at d2 off) [0 ..< 1312]"

text \<open>
  What the adapter and the baseline builder guarantee of their output: every payload has
  164 bytes (\<open>_extract_frame_data\<close> rejects any other length), and the baseline files
  each frame under its own FAR (\<open>add_frame\<close>).
\<close>

definition golden_ok :: "GoldenBaseline \<Rightarrow> bool" where
  "golden_ok g =
     (list_all (\<lambda>(far, gf). far_value gf = far \<and> length (frame_data gf) = 164) (g_frames g)
      \<and> list_all (\<lambda>(far, h). list_all (\<lambda>d. length d = 164) h) (g_write_history g))"

definition suspect_ok :: "LoadedBitstream \<Rightarrow> bool" where
  "suspect_ok s =
     (list_all (\<lambda>(far, sf). length (frame_data sf) = 164) (frame_by_far s)
      \<and> list_all (\<lambda>(far, h). list_all (\<lambda>f. length (frame_data f) = 164) h)
           (write_history s))"

text \<open>No frame that the baseline holds is missing from the suspect bitstream.\<close>

definition no_removed_frame :: "GoldenBaseline \<Rightarrow> LoadedBitstream \<Rightarrow> bool" where
  "no_removed_frame g s =
     list_all (\<lambda>far. far \<in> set (get_all_far_values s) \<or> g_get_frame g far = None)
       (configured_fars g)"

text \<open>The anomalies of a report that carry a given FAR.\<close>

definition anomalies_at :: "AnomalyReport \<Rightarrow> nat \<Rightarrow> FrameAnomaly list" where
  "anomalies_at r far = filter (\<lambda>a. a_far_value a = far) (anomalies r)"

text \<open>
  The 32-bit number that the four bytes at position \<open>p\<close> of a packet stream spell, most
  significant byte first.
\<close>

definition word_at :: "bytes \<Rightarrow> nat \<Rightarrow> nat" where
  "word_at payload p =
     unat (payload ! p) * 16777216 + unat (payload ! (p + 1)) * 65536
     + unat (payload ! (p + 2)) * 256 + unat (payload ! (p + 3))"

text \<open>
  The walker of \<open>generate_frames\<close> is consistent when its column is the entry of index
  \<open>maj_idx\<close> of the major list of its block; \<open>generate_frames\<close> establishes this before
  the loop.
\<close>

definition walker_ok :: "walker \<Rightarrow> bool" where
  "walker_ok w =
     (major_list_for_block (w_block w) = Some (w_major_list w)
      \<and> w_maj_idx w < length (w_major_list w)
      \<and> w_column w = w_major_list w ! w_maj_idx w)"

text \<open>
  How a frame \<open>f'\<close> follows a frame \<open>f\<close> in the output of the walker, by the lexer's own
  table \<open>MajorMinors\<close>: while the incremented minor is below the entry of the column, it
  is the next minor of the same column; otherwise the minor is 0 and, unless the column
  is the last of its block, the column is the next one of the major list of the block.
\<close>

definition walker_next :: "FrameObj \<Rightarrow> FrameObj \<Rightarrow> bool" where
  "walker_next f f' =
     (case max_minor (fo_column f) of
        None \<Rightarrow> False
      | Some m \<Rightarrow>
          if fo_minor f + 1 < m then
            fo_block_type f' = fo_block_type f \<and> fo_top_bottom f' = fo_top_bottom f
            \<and> fo_column f' = fo_column f \<and> fo_minor f' = fo_minor f + 1
          else
            fo_minor f' = 0
            \<and> (case major_list_for_block (fo_block_type f) of
                  None \<Rightarrow> False
                | Some ml \<Rightarrow>
                    fo_column f \<noteq> last ml \<longrightarrow>
                      fo_block_type f' = fo_block_type f
                      \<and> fo_top_bottom f' = fo_top_bottom f
                      \<and> list_ex (\<lambda>j. ml ! j = fo_column f \<and> ml ! (j + 1) = fo_column f')
                            [0 ..< length ml - 1]))"

section \<open>Example bitstreams\<close>

text \<open>
  One frame address, \<open>0x00020000\<close>, and a few payloads for it. The lexer produces this
  address as block 0, column 0, minor 1 (\<open>pack_far 0 0 0 1\<close>); the forward mapper reads
  it as a CLB frame of column 1, minor 0.
\<close>

definition F1 :: nat where
  "F1 = 131072"

definition zero_payload :: bytes where
  "zero_payload = replicate 164 0"

definition payload_with :: "8 word \<Rightarrow> bytes" where
  "payload_with b = b # replicate 163 0"

definition frame_F1 :: "bytes \<Rightarrow> nat \<Rightarrow> AdaptedFrame" where
  "frame_F1 d i =
     \<lparr> far_value = F1, af_block_type = 0, af_top_bottom = 0, af_column = 0, af_major = 0,
       af_minor = 1, frame_data = d, frame_index = i, data_word_count = 41 \<rparr>"

text \<open>The baseline with the single all-zero frame at \<open>F1\<close> and no tile marked as used.\<close>

definition golden_F1 :: GoldenBaseline where
  "golden_F1 = build_from_loaded (loaded_bitstream [frame_F1 zero_payload 0]) {}"

text \<open>
  Suspect bitstreams for the same address: one write of a payload whose first byte is
  \<open>b\<close>, and the same write followed by a second write of the all-zero payload.
\<close>

definition suspect_with :: "8 word \<Rightarrow> LoadedBitstream" where
  "suspect_with b = loaded_bitstream [frame_F1 (payload_with b) 0]"

definition suspect_transient :: "8 word \<Rightarrow> LoadedBitstream" where
  "suspect_transient b =
     loaded_bitstream [frame_F1 (payload_with b) 0, frame_F1 zero_payload 1]"

text \<open>
  A second frame address, \<open>0x00040000\<close> (block 0, column 0, minor 2 for the lexer), a
  baseline that holds all-zero frames at both addresses, and a suspect bitstream that
  writes the second address only.
\<close>

definition F2 :: nat where
  "F2 = 262144"

definition frame_F2 :: "bytes \<Rightarrow> nat \<Rightarrow> AdaptedFrame" where
  "frame_F2 d i =
     \<lparr> far_value = F2, af_block_type = 0, af_top_bottom = 0, af_column = 0, af_major = 0,
       af_minor = 2, frame_data = d, frame_index = i, data_word_count = 41 \<rparr>"

definition golden_F1F2 :: GoldenBaseline where
  "golden_F1F2 =
     build_from_loaded (loaded_bitstream [frame_F1 zero_payload 0, frame_F2 zero_payload 1]) {}"

definition suspect_F2 :: "8 word \<Rightarrow> LoadedBitstream" where
  "suspect_F2 b = loaded_bitstream [frame_F2 (payload_with b) 0]"

text \<open>A payload frame of the lexer: 41 words of four zero bytes.\<close>

definition zero_chunk :: "bytes list" where
  "zero_chunk = replicate 41 [0, 0, 0, 0]"

text \<open>
  A packet stream that never writes the FAR register: a Type-1 write of one word,
  \<open>0x00820000\<close>, to the CMD register (header \<open>0x30008001\<close>), then a Type-2 write of 41
  zero words (header \<open>0x50000029\<close>).
\<close>

definition cmd_then_fdri :: bytes where
  "cmd_then_fdri =
     [0x30, 0x00, 0x80, 0x01,  0x00, 0x82, 0x00, 0x00,  0x50, 0x00, 0x00, 0x29]
     @ replicate 164 0"

section \<open>Properties of the device tables and the forward mapper\<close>

lemmas far_consts =
  BLOCK_TYPE_START_def TOP_BIT_def MAJOR_START_def MINOR_START_def
  MAX_BLOCK_TYPE_def TOTAL_COLUMNS_def MAX_MAJOR_def

lemmas block_type_defs =
  CLB_def IOB_def BRAM_CONTENT_def BRAM_INT_def DSP_def CLK_def CFG_def RESERVED_def

subsection \<open>The FAR codec\<close>

lemma encode_0_0_32_0: "encode 0 0 32 0 = 4194304"
  by (simp add: encode_def far_consts)

lemma encode_0_1_1_0: "encode 0 1 1 0 = 4325376"
  by (simp add: encode_def far_consts)

text \<open>
  C3. The round trip does not hold on the legal tuples. Block type 0, bottom half
  (\<open>top_bottom = 0\<close>), column 32, minor 0 is legal (column 32 has 92 frames), yet it
  decodes with \<open>top_bottom = 1\<close>: \<open>encode\<close> places the six bits of \<open>major\<close> at bits
  22 to 17 and the \<open>top_bottom\<close> bit at bit 22, so bit 5 of the column and the
  half-select bit share one position.
\<close>

theorem FrameAddress_roundtrip_fails:
  "get_frames_per_column 32 = 92 \<and>
   decode (encode 0 0 32 0) =
     \<lparr> fa_block_type = 0, fa_top_bottom = 1, fa_major = 32, fa_minor = 0 \<rparr>"
  unfolding encode_0_0_32_0
  by (simp add: decode_def far_consts get_frames_per_column_def COLUMN_MAP_def)

text \<open>
  The overlap also works in the other direction: the top half of column 1 decodes as
  column 33.
\<close>

lemma FrameAddress_top_half_changes_major:
  "decode (encode 0 1 1 0) =
     \<lparr> fa_block_type = 0, fa_top_bottom = 1, fa_major = 33, fa_minor = 0 \<rparr>"
  unfolding encode_0_1_1_0 by (simp add: decode_def far_consts)

subsection \<open>Resource classification\<close>

lemma classify_resources_CLB:
  "classify_resources CLB d m = {ROUTING, LOGIC, CONTROL}"
  by (auto simp: classify_resources_def contains_routing_def contains_logic_def
        block_type_defs Let_def)

lemma classify_resources_BRAM_CONTENT:
  "classify_resources BRAM_CONTENT d m = {LOGIC, MEMORY}"
  by (auto simp: classify_resources_def contains_routing_def contains_logic_def
        block_type_defs Let_def)

lemma classify_resources_IOB:
  "classify_resources IOB d m = {IO, ROUTING, CONTROL}"
  by (auto simp: classify_resources_def contains_routing_def contains_logic_def
        block_type_defs Let_def)

lemma classify_resources_BRAM_INT:
  "classify_resources BRAM_INT d m = {ROUTING}"
  by (auto simp: classify_resources_def contains_routing_def contains_logic_def
        block_type_defs Let_def)

lemma classify_resources_CLK:
  "classify_resources CLK d m = {CLOCK, ROUTING, CONTROL}"
  by (auto simp: classify_resources_def contains_routing_def contains_logic_def
        block_type_defs Let_def)

lemma map_frame_column:
  assumes "fa_major (decode far) < 48"
  shows "resource_categories (map_frame far) =
           classify_resources (fa_block_type (decode far))
             (build_column_descriptor (fa_major (decode far))) (fa_minor (decode far))"
    and "is_routing_frame (map_frame far) = (ROUTING \<in> resource_categories (map_frame far))"
    and "is_logic_frame (map_frame far) = (LOGIC \<in> resource_categories (map_frame far))"
    and "is_clock_frame (map_frame far) = (CLOCK \<in> resource_categories (map_frame far))"
    and "is_io_frame (map_frame far) = (IO \<in> resource_categories (map_frame far))"
  using assms
  by (simp_all add: map_frame_def Let_def get_column_descriptor_def TOTAL_COLUMNS_def)

lemma map_frame_no_column:
  assumes "\<not> fa_major (decode far) < 48"
  shows "map_frame far = create_invalid_coverage"
  using assms
  by (simp add: map_frame_def Let_def get_column_descriptor_def TOTAL_COLUMNS_def)

lemma decode_131094:
  "fa_block_type (decode 131094) = 0" "fa_top_bottom (decode 131094) = 0"
  "fa_major (decode 131094) = 1" "fa_minor (decode 131094) = 22"
  by (simp_all add: decode_def far_consts)

lemma validate_131094: "validate 131094"
  by (simp add: validate_def Let_def decode_131094 far_consts get_column_type_def
        get_frames_per_column_def COLUMN_MAP_def)

lemma logic_minor_22: "\<not> cd_is_routing_frame (build_column_descriptor 1) 22"
  by (simp add: cd_is_routing_frame_def build_column_descriptor_def Let_def
        get_routing_frames_count_def COLUMN_MAP_def)

text \<open>
  C5. FAR \<open>0x00020016\<close> (131094) is valid: block type CLB, column 1, minor 22, the
  first logic minor of a CLB column (22 routing frames). The mapper classifies it as
  Routing, Logic and Control, not as Logic and Control only, and so flags it as a routing
  frame: the categories taken from \<open>BlockType.PROPERTIES\<close> are added before the
  routing-or-logic branch on the minor is reached.
\<close>

theorem CLB_logic_frame_classified_as_routing:
  "validate 131094 \<and>
   fa_block_type (decode 131094) = CLB \<and>
   \<not> cd_is_routing_frame (build_column_descriptor (fa_major (decode 131094)))
         (fa_minor (decode 131094)) \<and>
   resource_categories (map_frame 131094) = {ROUTING, LOGIC, CONTROL} \<and>
   is_routing_frame (map_frame 131094)"
  using logic_minor_22
  by (simp add: validate_131094 map_frame_column decode_131094
        classify_resources_CLB [unfolded CLB_def] CLB_def)

text \<open>
  The same holds for every CLB frame whatever its minor, a BRAM content frame is
  classified as Logic and Memory, and the three remaining rows of the matrix are as the
  specification gives them.
\<close>

lemma map_frame_resource_matrix:
  assumes "fa_major (decode far) < 48"
  shows "fa_block_type (decode far) = CLB \<Longrightarrow>
           resource_categories (map_frame far) = {ROUTING, LOGIC, CONTROL}"
    and "fa_block_type (decode far) = BRAM_CONTENT \<Longrightarrow>
           resource_categories (map_frame far) = {LOGIC, MEMORY}"
    and "fa_block_type (decode far) = IOB \<Longrightarrow>
           resource_categories (map_frame far) = {IO, ROUTING, CONTROL}"
    and "fa_block_type (decode far) = BRAM_INT \<Longrightarrow>
           resource_categories (map_frame far) = {ROUTING}"
    and "fa_block_type (decode far) = CLK \<Longrightarrow>
           resource_categories (map_frame far) = {CLOCK, ROUTING, CONTROL}"
  using assms
  by (simp_all add: map_frame_column classify_resources_CLB classify_resources_BRAM_CONTENT
        classify_resources_IOB classify_resources_BRAM_INT classify_resources_CLK)

section \<open>Properties of the differential detector\<close>

subsection \<open>Loops and structural differences\<close>

lemma set_set_iter [simp]: "set (set_iter xs) = set xs"
  by (simp add: set_iter_def)

lemma distinct_set_iter [simp]: "distinct (set_iter xs)"
  by (simp add: set_iter_def)

lemma extend_all_error: "extend_all rs = Inl e \<Longrightarrow> Inl e \<in> set rs"
  by (induction rs) (auto split: sum.splits)

lemma extend_all_Inl: "Inl e \<in> set rs \<Longrightarrow> \<exists>e'. extend_all rs = Inl e'"
  by (induction rs) (auto split: sum.splits)

lemma extend_all_Inr:
  "extend_all rs = Inr zs \<Longrightarrow> rs = map Inr (map projr rs) \<and> zs = concat (map projr rs)"
  by (induction rs arbitrary: zs) (auto split: sum.splits)

lemma extend_all_map_Inr [simp]: "extend_all (map Inr xss) = Inr (concat xss)"
  by (induction xss) auto

lemma extend_all_total:
  "(\<And>r. r \<in> set rs \<Longrightarrow> \<exists>xs. r = Inr xs) \<Longrightarrow> \<exists>zs. extend_all rs = Inr zs"
  by (induction rs) (auto split: sum.splits)

lemma create_removed_cases:
  "create_removed_frame_anomaly far g = Inr None \<or> create_removed_frame_anomaly far g = Inl NameError"
  by (simp add: create_removed_frame_anomaly_def split: option.splits)

lemma structural_error:
  "detect_structural_differences g s = Inl e \<Longrightarrow> e = NameError"
  by (auto simp: detect_structural_differences_def Let_def append_if_def
        create_removed_frame_anomaly_def
        dest!: extend_all_error split: option.splits)

text \<open>
  C2. A frame of the baseline that the suspect bitstream lacks does not yield a
  \<open>FRAME_REMOVED\<close> anomaly: as soon as one FAR of the baseline is absent from the suspect
  and the baseline holds a frame for it, \<open>detect\<close> ends with \<open>NameError\<close> and returns
  no report.
\<close>

theorem removed_frame_raises:
  assumes "far \<in> set (configured_fars golden)"
    and "far \<notin> set (get_all_far_values suspect)"
    and "g_get_frame golden far = Some golden_frame"
  shows "detect golden suspect = Inl NameError"
proof -
  have "Inl NameError \<in> set
      (map (\<lambda>far. append_if (Inr (create_added_frame_anomaly far suspect)))
         (filter (\<lambda>far. far \<notin> set (get_expected_frames golden))
            (set_iter (get_all_far_values suspect)))
       @ map (\<lambda>far. append_if (create_removed_frame_anomaly far golden))
           (filter (\<lambda>far. far \<notin> set (set_iter (get_all_far_values suspect)))
              (get_expected_frames golden)))"
    using assms
    by (auto simp: get_expected_frames_def append_if_def create_removed_frame_anomaly_def
          image_iff intro!: bexI [of _ far])
  then obtain e where e: "detect_structural_differences golden suspect = Inl e"
    unfolding detect_structural_differences_def Let_def
    by (blast dest: extend_all_Inl)
  then have "e = NameError" by (rule structural_error)
  with e show ?thesis by (simp add: detect_def)
qed


lemma golden_F1_fields:
  "g_frames golden_F1 = [(F1, frame_F1 zero_payload 0)]"
  "g_write_history golden_F1 = [(F1, [zero_payload])]"
  "configured_fars golden_F1 = [F1]"
  "used_tiles golden_F1 = {}"
  by (simp_all add: golden_F1_def build_from_loaded_def loaded_bitstream_def
        build_indices_step_def add_frame_def set_write_history_def empty_baseline_def
        frame_F1_def Let_def)

lemma loaded_empty:
  "frame_by_far (loaded_bitstream []) = []" "write_history (loaded_bitstream []) = []"
  "frames (loaded_bitstream []) = []"
  by (simp_all add: loaded_bitstream_def)

theorem removed_frame_raises_witness:
  "F1 \<in> set (configured_fars golden_F1) \<and>
   F1 \<notin> set (get_all_far_values (loaded_bitstream [])) \<and>
   g_get_frame golden_F1 F1 = Some (frame_F1 zero_payload 0) \<and>
   detect golden_F1 (loaded_bitstream []) = Inl NameError"
proof -
  have a: "F1 \<in> set (configured_fars golden_F1)"
    by (simp add: golden_F1_fields)
  have b: "F1 \<notin> set (get_all_far_values (loaded_bitstream []))"
    by (simp add: get_all_far_values_def loaded_empty)
  have c: "g_get_frame golden_F1 F1 = Some (frame_F1 zero_payload 0)"
    by (simp add: g_get_frame_def golden_F1_fields)
  show ?thesis
    using a b c removed_frame_raises [OF a b c] by simp
qed

subsection \<open>Comparing payloads\<close>

declare upt_rec_numeral [simp del]

lemma compare_loop_eq:
  assumes "\<forall>off \<in> set offs. off < 1312" and "164 \<le> length f1" and "164 \<le> length f2"
  shows "compare_loop f1 f2 offs = Inr (filter (\<lambda>off. bit_at f1 off \<noteq> bit_at f2 off) offs)"
  using assms
proof (induction offs)
  case Nil
  then show ?case by simp
next
  case (Cons off offs)
  then have "off < 1312" by simp
  then have "off div 8 < 164" by simp
  with Cons.prems have "off div 8 < length f1" "off div 8 < length f2" by simp_all
  with Cons \<open>off < 1312\<close> show ?case
    by (simp add: extract_bit_def bit_at_def Let_def)
qed

lemma compare_frames_eq:
  assumes "length f1 = length f2" and "164 \<le> length f1"
  shows "compare_frames f1 f2 = Inr (differing_bits f1 f2)"
  using assms
  by (simp add: compare_frames_def differing_bits_def compare_loop_eq del: upt_rec_numeral)

lemma differing_bits_same [simp]: "differing_bits d d = []"
  by (simp add: differing_bits_def del: upt_rec_numeral)

lemma differing_bits_payload_with:
  "differing_bits (payload_with a) (payload_with b) =
     filter (\<lambda>off. bit a (7 - off) \<noteq> bit b (7 - off)) [0 ..< 8]"
proof -
  have split: "[0 ..< 1312] = [0 ..< 8] @ [8 ..< 1312]"
    using upt_add_eq_append [of 0 8 1304] by (simp del: upt_rec_numeral)
  have tail: "filter (\<lambda>off. bit_at (payload_with a) off \<noteq> bit_at (payload_with b) off)
                [8 ..< 1312] = []"
  proof -
    have "bit_at (payload_with a) off = bit_at (payload_with b) off" if "8 \<le> off" for off
    proof -
      from that have "0 < off div 8" by (simp add: div_greater_zero_iff)
      then show ?thesis
        by (simp add: bit_at_def payload_with_def nth_Cons')
    qed
    then show ?thesis by (simp add: filter_empty_conv del: upt_rec_numeral)
  qed
  have head: "filter (\<lambda>off. bit_at (payload_with a) off \<noteq> bit_at (payload_with b) off)
                [0 ..< 8] = filter (\<lambda>off. bit a (7 - off) \<noteq> bit b (7 - off)) [0 ..< 8]"
    by (rule filter_cong) (auto simp: bit_at_def payload_with_def simp del: upt_rec_numeral)
  show ?thesis
    unfolding differing_bits_def split filter_append tail head by (rule append_Nil2)
qed

lemma upt_8: "[0 ..< 8] = [0, 1, 2, 3, 4, 5, 6, 7 :: nat]"
  by (simp add: upt_conv_Cons)

lemma differing_bits_0_1F: "differing_bits (payload_with 0) (payload_with 0x1F) = [3, 4, 5, 6, 7]"
  by (simp add: differing_bits_payload_with upt_8)

lemma differing_bits_0_0F: "differing_bits (payload_with 0) (payload_with 0x0F) = [4, 5, 6, 7]"
  by (simp add: differing_bits_payload_with upt_8)

lemma differing_bits_0_01: "differing_bits (payload_with 0) (payload_with 0x01) = [7]"
  by (simp add: differing_bits_payload_with upt_8)

lemma zero_payload_eq: "zero_payload = payload_with 0"
  by (simp add: zero_payload_def payload_with_def numeral_eq_Suc)

lemma length_payload_with [simp]: "length (payload_with b) = 164"
  by (simp add: payload_with_def)

lemma payload_with_inject [simp]: "payload_with a = payload_with b \<longleftrightarrow> a = b"
  by (simp add: payload_with_def)

subsection \<open>The report and the anomalies created\<close>

lemma fold_add_anomaly:
  "anomalies (fold add_anomaly xs r) = anomalies r @ xs"
  "critical_count (fold add_anomaly xs r) =
     critical_count r + length (filter (\<lambda>a. severity a = CRITICAL) xs)"
  "high_count (fold add_anomaly xs r) =
     high_count r + length (filter (\<lambda>a. severity a = HIGH) xs)"
  "medium_count (fold add_anomaly xs r) =
     medium_count r + length (filter (\<lambda>a. severity a = MEDIUM) xs)"
  "low_count (fold add_anomaly xs r) =
     low_count r + length (filter (\<lambda>a. severity a = LOW) xs)"
  "total_bits_changed (fold add_anomaly xs r) =
     total_bits_changed r + sum_list (map bits_changed xs)"
  by (induction xs arbitrary: r; simp add: add_anomaly_def Let_def)+

lemma detect_Inr:
  assumes "detect g s = Inr r"
  obtains st da where
    "detect_structural_differences g s = Inr st"
    "detect_data_differences g s = Inr da"
    "anomalies r = map assess_anomaly (map (classify_anomaly g) (st @ da))"
    "critical_count r = length (filter (\<lambda>a. severity a = CRITICAL) (st @ da))"
    "high_count r = length (filter (\<lambda>a. severity a = HIGH) (st @ da))"
    "medium_count r = length (filter (\<lambda>a. severity a = MEDIUM) (st @ da))"
    "low_count r = length (filter (\<lambda>a. severity a = LOW) (st @ da))"
    "total_bits_changed r = sum_list (map bits_changed (st @ da))"
    "trojan_detected r = (critical_count r > 0 \<or> high_count r \<ge> 3)"
proof -
  from assms obtain st where st: "detect_structural_differences g s = Inr st"
    by (auto simp: detect_def split: sum.splits)
  with assms obtain da where da: "detect_data_differences g s = Inr da"
    by (auto simp: detect_def split: sum.splits)
  from assms st da have r: "r = finalize
      ((fold add_anomaly da (fold add_anomaly st new_report))
        \<lparr> anomalies := map assess_anomaly (map (classify_anomaly g) (st @ da)),
          total_frames_compared := length (g_frames g) + length (frames s) \<rparr>)"
    by (simp add: detect_def Let_def fold_add_anomaly new_report_def)
  show ?thesis
    by (rule that [OF st da])
       (simp_all add: r finalize_def Let_def fold_add_anomaly new_report_def)
qed

lemma detect_returns_iff:
  "(\<exists>r. detect g s = Inr r) \<longleftrightarrow>
   (\<exists>st da. detect_structural_differences g s = Inr st \<and> detect_data_differences g s = Inr da)"
  by (auto simp: detect_def Let_def split: sum.splits)

lemma create_modified_props:
  assumes "create_modified_frame_anomaly gf sf tr ref = Inr (Some a)"
  shows "severity a = MEDIUM" "a_far_value a = far_value gf" "transient a = tr"
    "a_is_routing_frame a = is_routing_frame (map_frame (far_value gf))"
    "a_is_logic_frame a = is_logic_frame (map_frame (far_value gf))"
    "a_is_clock_frame a = is_clock_frame (map_frame (far_value gf))"
    "a_is_io_frame a = is_io_frame (map_frame (far_value gf))"
    "a_tiles_affected a = tiles_affected (map_frame (far_value gf))"
    "anomaly_type a \<noteq> FRAME_ADDED" "anomaly_type a \<noteq> FRAME_REMOVED"
    "compare_frames (case ref of Some d \<Rightarrow> d | None \<Rightarrow> frame_data gf) (frame_data sf)
       = Inr ds \<Longrightarrow> bits_changed a = length ds \<and> 5 \<le> length ds"
  using assms
  by (auto simp: create_modified_frame_anomaly_def Let_def min_bits_for_significance_def
        split: sum.splits if_splits)

lemma create_added_props:
  assumes "create_added_frame_anomaly far s = Some a"
  shows "severity a = MEDIUM" "a_far_value a = far" "\<not> transient a"
    "anomaly_type a = FRAME_ADDED"
    "\<exists>sf. bs_get_frame s far = Some sf \<and> bits_changed a = count_set_bits (frame_data sf)"
  using assms
  by (auto simp: create_added_frame_anomaly_def Let_def split: option.splits)

subsection \<open>Severity counters\<close>

lemma extend_all_mem:
  "extend_all rs = Inr zs \<Longrightarrow> a \<in> set zs \<Longrightarrow> \<exists>xs. Inr xs \<in> set rs \<and> a \<in> set xs"
proof (induction rs arbitrary: zs)
  case Nil
  then show ?case by simp
next
  case (Cons r rs)
  from Cons.prems(1) obtain xs ys where r: "r = Inr xs" and ys: "extend_all rs = Inr ys"
    and zs: "zs = xs @ ys"
    by (auto split: sum.splits)
  from Cons.prems(2) zs consider "a \<in> set xs" | "a \<in> set ys" by auto
  then show ?case
  proof cases
    case 1
    with r show ?thesis by auto
  next
    case 2
    from Cons.IH [OF ys 2] show ?thesis by auto
  qed
qed

lemma extend_all_subset:
  "extend_all rs = Inr zs \<Longrightarrow> Inr xs \<in> set rs \<Longrightarrow> set xs \<subseteq> set zs"
  by (induction rs arbitrary: zs) (auto split: sum.splits)

lemma append_if_mem:
  "append_if r = Inr xs \<Longrightarrow> a \<in> set xs \<longleftrightarrow> r = Inr (Some a)"
  by (auto simp: append_if_def split: sum.splits option.splits)

lemma append_if_Inr_iff:
  "(\<exists>xs. append_if r = Inr xs) \<longleftrightarrow> (\<exists>opt. r = Inr opt)"
  by (auto simp: append_if_def split: sum.splits option.splits)

lemma structural_anomaly:
  assumes "detect_structural_differences g s = Inr st" and "a \<in> set st"
  shows "\<exists>far. far \<in> set (get_all_far_values s) \<and> far \<notin> set (configured_fars g)
           \<and> create_added_frame_anomaly far s = Some a"
proof -
  from assms obtain xs where xs: "a \<in> set xs"
    and mem: "Inr xs \<in> set
      (map (\<lambda>far. append_if (Inr (create_added_frame_anomaly far s)))
         (filter (\<lambda>far. far \<notin> set (get_expected_frames g)) (set_iter (get_all_far_values s)))
       @ map (\<lambda>far. append_if (create_removed_frame_anomaly far g))
           (filter (\<lambda>far. far \<notin> set (set_iter (get_all_far_values s)))
              (get_expected_frames g)))"
    unfolding detect_structural_differences_def Let_def
    by (blast dest: extend_all_mem)
  from mem xs show ?thesis
    by (auto simp: get_expected_frames_def append_if_def create_removed_frame_anomaly_def
          split: option.splits)
qed

lemma transient_anomaly:
  assumes "detect_transient_history_mismatches gf sh gh = Inr xs" and "a \<in> set xs"
  shows "\<exists>sf ref. create_modified_frame_anomaly gf sf True ref = Inr (Some a)"
proof -
  from assms obtain ys where ys: "a \<in> set ys"
    and mem: "Inr ys \<in> set
      (map (\<lambda>idx. let suspect_frame = sh ! idx; expected_data = gh ! idx
                  in if frame_data suspect_frame \<noteq> expected_data
                     then append_if (create_modified_frame_anomaly gf suspect_frame
                                       True (Some expected_data))
                     else Inr [])
           [0 ..< min (length sh) (length gh)]
       @ (if length sh > length gh
          then map (\<lambda>idx. append_if (create_modified_frame_anomaly gf (sh ! idx) True
                                       (Some (frame_data gf))))
                   [min (length sh) (length gh) ..< length sh]
          else []))"
    unfolding detect_transient_history_mismatches_def Let_def
    by (blast dest: extend_all_mem)
  from mem ys show ?thesis
    by (auto simp: Let_def append_if_def split: if_splits sum.splits option.splits) blast+
qed

lemma data_difference_anomaly:
  assumes "data_difference_at g s far = Inr xs" and "a \<in> set xs"
  shows "\<exists>gf sf tr ref. g_get_frame g far = Some gf
           \<and> create_modified_frame_anomaly gf sf tr ref = Inr (Some a)"
proof -
  from assms obtain gf sf where gf: "g_get_frame g far = Some gf"
    and sf: "bs_get_frame s far = Some sf"
    by (auto simp: data_difference_at_def split: option.splits)
  show ?thesis
  proof (cases "frame_data gf \<noteq> frame_data sf")
    case True
    with assms gf sf have "create_modified_frame_anomaly gf sf False None = Inr (Some a)"
      by (auto simp: data_difference_at_def append_if_def split: sum.splits option.splits)
    with gf show ?thesis by blast
  next
    case False
    with assms gf sf have "detect_transient_history_mismatches gf
        (bs_get_write_history s far) (g_get_write_history g far) = Inr xs"
      by (auto simp: data_difference_at_def Let_def split: if_splits)
    from transient_anomaly [OF this assms(2)] gf show ?thesis by blast
  qed
qed

lemma data_anomaly:
  assumes "detect_data_differences g s = Inr da" and "a \<in> set da"
  shows "\<exists>far gf sf tr ref. far \<in> set (configured_fars g) \<and> far \<in> set (get_all_far_values s)
           \<and> g_get_frame g far = Some gf
           \<and> create_modified_frame_anomaly gf sf tr ref = Inr (Some a)"
proof -
  from assms obtain xs where xs: "a \<in> set xs"
    and mem: "Inr xs \<in> set (map (data_difference_at g s)
        (filter (\<lambda>far. far \<in> set (set_iter (get_all_far_values s))) (get_expected_frames g)))"
    unfolding detect_data_differences_def Let_def
    by (blast dest: extend_all_mem)
  from mem obtain far where far: "far \<in> set (configured_fars g)"
      "far \<in> set (get_all_far_values s)" and d: "data_difference_at g s far = Inr xs"
    by (auto simp: get_expected_frames_def)
  from data_difference_anomaly [OF d xs] far show ?thesis by blast
qed

lemma tentative_severity:
  assumes "detect_structural_differences g s = Inr st"
    and "detect_data_differences g s = Inr da"
    and "a \<in> set (st @ da)"
  shows "severity a = MEDIUM"
proof -
  from assms(3) consider "a \<in> set st" | "a \<in> set da" by auto
  then show ?thesis
  proof cases
    case 1
    from structural_anomaly [OF assms(1) 1] show ?thesis
      by (auto dest: create_added_props)
  next
    case 2
    from data_anomaly [OF assms(2) 2] show ?thesis
      by (auto dest: create_modified_props)
  qed
qed

text \<open>
  C1. The counters of a finished report are not the counts of the final severities.
  They are incremented when an anomaly is added, in phases 1 and 2, where every anomaly
  still carries the tentative severity \<open>MEDIUM\<close>; phase 4 then rewrites the severities
  and \<open>finalize\<close> reads the counters as they were. So whatever the inputs, a report
  that \<open>detect\<close> returns has \<open>critical_count = 0\<close>, \<open>high_count = 0\<close> and
  \<open>trojan_detected = False\<close>, also when it holds anomalies of final severity
  \<open>CRITICAL\<close>.
\<close>

theorem detect_never_reports_trojan:
  assumes "detect g s = Inr r"
  shows "critical_count r = 0 \<and> high_count r = 0 \<and> \<not> trojan_detected r
         \<and> medium_count r = length (anomalies r)"
proof -
  from assms obtain st da where
    st: "detect_structural_differences g s = Inr st" and
    da: "detect_data_differences g s = Inr da" and
    an: "anomalies r = map assess_anomaly (map (classify_anomaly g) (st @ da))" and
    cc: "critical_count r = length (filter (\<lambda>a. severity a = CRITICAL) (st @ da))" and
    hc: "high_count r = length (filter (\<lambda>a. severity a = HIGH) (st @ da))" and
    mc: "medium_count r = length (filter (\<lambda>a. severity a = MEDIUM) (st @ da))" and
    td: "trojan_detected r = (critical_count r > 0 \<or> high_count r \<ge> 3)"
    by (rule detect_Inr)
  define xs where "xs = st @ da"
  have sev: "\<forall>a \<in> set xs. severity a = MEDIUM"
    unfolding xs_def using tentative_severity [OF st da] by blast
  then have "filter (\<lambda>a. severity a = CRITICAL) xs = []"
    and "filter (\<lambda>a. severity a = HIGH) xs = []"
    and "filter (\<lambda>a. severity a = MEDIUM) xs = xs"
    by (auto simp: filter_empty_conv filter_id_conv)
  with cc hc mc td an show ?thesis by (simp add: xs_def [symmetric])
qed

subsection \<open>The example bitstreams under the detector\<close>

lemma suspect_with_fields:
  "frame_by_far (suspect_with b) = [(F1, frame_F1 (payload_with b) 0)]"
  "write_history (suspect_with b) = [(F1, [frame_F1 (payload_with b) 0])]"
  "frames (suspect_with b) = [frame_F1 (payload_with b) 0]"
  "get_all_far_values (suspect_with b) = [F1]"
  by (simp_all add: suspect_with_def loaded_bitstream_def build_indices_step_def
        frame_F1_def get_all_far_values_def)

lemma suspect_transient_fields:
  "frame_by_far (suspect_transient b) = [(F1, frame_F1 zero_payload 1)]"
  "write_history (suspect_transient b) =
     [(F1, [frame_F1 (payload_with b) 0, frame_F1 zero_payload 1])]"
  "frames (suspect_transient b) = [frame_F1 (payload_with b) 0, frame_F1 zero_payload 1]"
  "get_all_far_values (suspect_transient b) = [F1]"
  by (simp_all add: suspect_transient_def loaded_bitstream_def build_indices_step_def
        frame_F1_def get_all_far_values_def)

lemma frame_F1_sel [simp]:
  "far_value (frame_F1 d i) = F1" "frame_data (frame_F1 d i) = d"
  by (simp_all add: frame_F1_def)

lemma decode_F1:
  "fa_block_type (decode F1) = 0" "fa_top_bottom (decode F1) = 0"
  "fa_major (decode F1) = 1" "fa_minor (decode F1) = 0"
  by (simp_all add: decode_def far_consts F1_def)

lemma map_frame_F1:
  "is_routing_frame (map_frame F1)" "is_logic_frame (map_frame F1)"
  "\<not> is_clock_frame (map_frame F1)" "\<not> is_io_frame (map_frame F1)"
  "length (tiles_affected (map_frame F1)) = 40"
proof -
  have cats: "resource_categories (map_frame F1) = {ROUTING, LOGIC, CONTROL}"
    by (simp add: map_frame_column decode_F1 classify_resources_CLB [unfolded CLB_def])
  show "is_routing_frame (map_frame F1)" "is_logic_frame (map_frame F1)"
    "\<not> is_clock_frame (map_frame F1)" "\<not> is_io_frame (map_frame F1)"
    by (simp_all add: map_frame_column decode_F1 cats)
  show "length (tiles_affected (map_frame F1)) = 40"
    by (simp add: map_frame_def Let_def decode_F1 get_column_descriptor_def far_consts
          build_column_descriptor_def get_tile_types_in_column_def COLUMN_MAP_def
          generate_tile_names_def calculate_tile_range_def)
qed

lemma set_iter_single [simp]: "set_iter [x] = [x]"
  by (simp add: set_iter_def)

lemma structural_F1 [simp]:
  "detect_structural_differences golden_F1 (suspect_with b) = Inr []"
  "detect_structural_differences golden_F1 (suspect_transient b) = Inr []"
  by (simp_all add: detect_structural_differences_def Let_def get_expected_frames_def
        golden_F1_fields suspect_with_fields suspect_transient_fields)


lemma compare_payload_with:
  "compare_frames (payload_with a) (payload_with b) =
     Inr (differing_bits (payload_with a) (payload_with b))"
  by (simp add: compare_frames_eq)

text \<open>The anomaly that a five-bit change of the frame at \<open>F1\<close> creates in phase 2.\<close>

lemma data_F1_five_bits:
  "detect_data_differences golden_F1 (suspect_with 0x1F) =
     Inr [\<lparr> anomaly_type = ROUTING_CHANGE,
            severity = MEDIUM,
            a_far_value = F1,
            a_block_type = 0,
            a_column = 0,
            a_minor = 1,
            a_top_bottom = 0,
            a_tiles_affected = tiles_affected (map_frame F1),
            tiles_used = [],
            tiles_unused = [],
            bits_changed = 5,
            changed_bit_positions = [3, 4, 5, 6, 7],
            a_is_routing_frame = True,
            a_is_logic_frame = True,
            a_is_clock_frame = False,
            a_is_io_frame = False,
            golden_data = Some zero_payload,
            suspect_data = Some (payload_with 0x1F),
            attack_vectors = [],
            transient = False \<rparr>]"
  by (simp add: detect_data_differences_def Let_def get_expected_frames_def
        golden_F1_fields suspect_with_fields data_difference_at_def g_get_frame_def
        bs_get_frame_def append_if_def create_modified_frame_anomaly_def
        zero_payload_eq compare_payload_with differing_bits_0_1F
        min_bits_for_significance_def map_frame_F1)
     (simp add: frame_F1_def)


theorem detect_never_reports_trojan_witness:
  "(case detect golden_F1 (suspect_with 0x1F) of
      Inl e \<Rightarrow> False
    | Inr r \<Rightarrow> map severity (anomalies r) = [CRITICAL] \<and> critical_count r = 0
               \<and> high_count r = 0 \<and> \<not> trojan_detected r
               \<and> medium_count r = length (anomalies r))"
proof -
  obtain r where d: "detect golden_F1 (suspect_with 0x1F) = Inr r"
    using detect_returns_iff [of golden_F1 "suspect_with 0x1F"]
    by (auto simp: data_F1_five_bits)
  from d obtain st da where
    "detect_structural_differences golden_F1 (suspect_with 0x1F) = Inr st"
    "detect_data_differences golden_F1 (suspect_with 0x1F) = Inr da"
    "anomalies r = map assess_anomaly (map (classify_anomaly golden_F1) (st @ da))"
    by (rule detect_Inr)
  then have "map severity (anomalies r) = [CRITICAL]"
    by (auto simp: data_F1_five_bits classify_anomaly_def assess_anomaly_def
          calculate_severity_def is_in_unused_region_def is_tile_used_def
          golden_F1_fields map_frame_F1 Let_def)
  with detect_never_reports_trojan [OF d] d show ?thesis by simp
qed

subsection \<open>When the detector returns\<close>

lemma golden_ok_frame:
  assumes "golden_ok g" and "g_get_frame g far = Some gf"
  shows "far_value gf = far" and "length (frame_data gf) = 164"
proof -
  from assms(2) have "(far, gf) \<in> set (g_frames g)"
    by (simp add: g_get_frame_def map_of_SomeD)
  with assms(1) show "far_value gf = far" and "length (frame_data gf) = 164"
    by (auto simp: golden_ok_def list_all_iff)
qed

lemma golden_ok_history:
  assumes "golden_ok g" and "d \<in> set (g_get_write_history g far)"
  shows "length d = 164"
proof -
  from assms(2) obtain h where h: "map_of (g_write_history g) far = Some h" and d: "d \<in> set h"
    by (cases "map_of (g_write_history g) far") (auto simp: g_get_write_history_def)
  from h have "(far, h) \<in> set (g_write_history g)" by (rule map_of_SomeD)
  with assms(1) d show ?thesis
    by (auto simp: golden_ok_def list_all_iff)
qed

lemma suspect_ok_frame:
  assumes "suspect_ok s" and "bs_get_frame s far = Some sf"
  shows "length (frame_data sf) = 164"
proof -
  from assms(2) have "(far, sf) \<in> set (frame_by_far s)"
    by (simp add: bs_get_frame_def map_of_SomeD)
  with assms(1) show ?thesis
    by (auto simp: suspect_ok_def list_all_iff)
qed

lemma suspect_ok_history:
  assumes "suspect_ok s" and "f \<in> set (bs_get_write_history s far)"
  shows "length (frame_data f) = 164"
proof -
  from assms(2) obtain h where h: "map_of (write_history s) far = Some h" and f: "f \<in> set h"
    by (cases "map_of (write_history s) far") (auto simp: bs_get_write_history_def)
  from h have "(far, h) \<in> set (write_history s)" by (rule map_of_SomeD)
  with assms(1) f show ?thesis
    by (auto simp: suspect_ok_def list_all_iff)
qed

lemma far_values_frame:
  "far \<in> set (get_all_far_values s) \<longleftrightarrow> (\<exists>sf. bs_get_frame s far = Some sf)"
proof -
  have "(\<exists>sf. map_of (frame_by_far s) far = Some sf) \<longleftrightarrow> map_of (frame_by_far s) far \<noteq> None"
    by auto
  also have "\<dots> \<longleftrightarrow> far \<in> fst ` set (frame_by_far s)"
    by (simp add: map_of_eq_None_iff)
  finally show ?thesis
    by (simp add: get_all_far_values_def bs_get_frame_def)
qed

text \<open>
  On payloads of 164 bytes \<open>_create_modified_frame_anomaly\<close> returns, and it returns
  an anomaly exactly when at least five bits differ.
\<close>

lemma create_modified_164:
  assumes "length (case ref of Some d \<Rightarrow> d | None \<Rightarrow> frame_data gf) = 164"
    and "length (frame_data sf) = 164"
  shows "\<exists>opt. create_modified_frame_anomaly gf sf tr ref = Inr opt \<and>
           (opt = None \<longleftrightarrow>
              length (differing_bits (case ref of Some d \<Rightarrow> d | None \<Rightarrow> frame_data gf)
                        (frame_data sf)) < 5)"
  using assms
  by (simp add: create_modified_frame_anomaly_def Let_def compare_frames_eq
        min_bits_for_significance_def)

lemma transient_returns:
  assumes "length (frame_data gf) = 164"
    and "\<forall>f \<in> set sh. length (frame_data f) = 164"
    and "\<forall>d \<in> set gh. length d = 164"
  shows "\<exists>xs. detect_transient_history_mismatches gf sh gh = Inr xs"
  unfolding detect_transient_history_mismatches_def Let_def
proof (rule extend_all_total)
  fix r
  assume "r \<in> set
      (map (\<lambda>idx. if frame_data (sh ! idx) \<noteq> gh ! idx
                  then append_if (create_modified_frame_anomaly gf (sh ! idx) True
                                    (Some (gh ! idx)))
                  else Inr [])
           [0 ..< min (length sh) (length gh)]
       @ (if length sh > length gh
          then map (\<lambda>idx. append_if (create_modified_frame_anomaly gf (sh ! idx) True
                                       (Some (frame_data gf))))
                   [min (length sh) (length gh) ..< length sh]
          else []))"
  then consider idx where "idx < length sh" "idx < length gh"
      "r = append_if (create_modified_frame_anomaly gf (sh ! idx) True (Some (gh ! idx)))"
    | "r = Inr []"
    | idx where "idx < length sh"
      "r = append_if (create_modified_frame_anomaly gf (sh ! idx) True (Some (frame_data gf)))"
    by (auto split: if_splits)
  then show "\<exists>xs. r = Inr xs"
  proof cases
    case 1
    with assms have "length (gh ! idx) = 164" "length (frame_data (sh ! idx)) = 164"
      by simp_all
    then obtain opt where
      "create_modified_frame_anomaly gf (sh ! idx) True (Some (gh ! idx)) = Inr opt"
      using create_modified_164 [where ref = "Some (gh ! idx)" and gf = gf and sf = "sh ! idx"
          and tr = True]
      by auto
    with 1 show ?thesis by (simp add: append_if_Inr_iff)
  next
    case 2
    then show ?thesis by simp
  next
    case 3
    with assms have "length (frame_data (sh ! idx)) = 164" by simp
    with assms(1) obtain opt where
      "create_modified_frame_anomaly gf (sh ! idx) True (Some (frame_data gf)) = Inr opt"
      using create_modified_164 [where ref = "Some (frame_data gf)" and gf = gf
          and sf = "sh ! idx" and tr = True]
      by auto
    with 3 show ?thesis by (simp add: append_if_Inr_iff)
  qed
qed

lemma data_difference_returns:
  assumes "golden_ok g" and "suspect_ok s"
  shows "\<exists>xs. data_difference_at g s far = Inr xs"
proof (cases "g_get_frame g far")
  case None
  then show ?thesis by (simp add: data_difference_at_def)
next
  case (Some gf)
  note gf = this
  show ?thesis
  proof (cases "bs_get_frame s far")
    case None
    with gf show ?thesis by (simp add: data_difference_at_def)
  next
    case (Some sf)
    have lg: "length (frame_data gf) = 164"
      using assms(1) gf by (rule golden_ok_frame)
    have ls: "length (frame_data sf) = 164"
      using assms(2) Some by (rule suspect_ok_frame)
    obtain opt where "create_modified_frame_anomaly gf sf False None = Inr opt"
      using create_modified_164 [where ref = None and gf = gf and sf = sf and tr = False] lg ls
      by auto
    moreover obtain xs where "detect_transient_history_mismatches gf
        (bs_get_write_history s far) (g_get_write_history g far) = Inr xs"
      using transient_returns [OF lg, of "bs_get_write_history s far" "g_get_write_history g far"]
        suspect_ok_history [OF assms(2)] golden_ok_history [OF assms(1)]
      by blast
    ultimately show ?thesis
      using gf Some by (simp add: data_difference_at_def Let_def append_if_Inr_iff)
  qed
qed

lemma structural_returns:
  assumes "no_removed_frame g s"
  shows "\<exists>st. detect_structural_differences g s = Inr st"
  unfolding detect_structural_differences_def Let_def
proof (rule extend_all_total)
  fix r
  assume "r \<in> set
      (map (\<lambda>far. append_if (Inr (create_added_frame_anomaly far s)))
         (filter (\<lambda>far. far \<notin> set (get_expected_frames g)) (set_iter (get_all_far_values s)))
       @ map (\<lambda>far. append_if (create_removed_frame_anomaly far g))
           (filter (\<lambda>far. far \<notin> set (set_iter (get_all_far_values s)))
              (get_expected_frames g)))"
  then consider far where "r = append_if (Inr (create_added_frame_anomaly far s))"
    | far where "far \<in> set (configured_fars g)" "far \<notin> set (get_all_far_values s)"
        "r = append_if (create_removed_frame_anomaly far g)"
    by (auto simp: get_expected_frames_def)
  then show "\<exists>xs. r = Inr xs"
  proof cases
    case 1
    then show ?thesis by (simp add: append_if_Inr_iff)
  next
    case 2
    with assms have "g_get_frame g far = None"
      by (auto simp: no_removed_frame_def list_all_iff)
    with 2 show ?thesis
      by (simp add: create_removed_frame_anomaly_def append_if_def)
  qed
qed

text \<open>
  On inputs as the loader and the baseline builder produce them, and with no frame of the
  baseline missing, \<open>detect\<close> returns a report.
\<close>

lemma detect_returns:
  assumes "golden_ok g" and "suspect_ok s" and "no_removed_frame g s"
  shows "\<exists>r. detect g s = Inr r"
proof -
  have "\<exists>da. detect_data_differences g s = Inr da"
    unfolding detect_data_differences_def Let_def
    by (rule extend_all_total) (auto simp: data_difference_returns [OF assms(1,2)])
  with structural_returns [OF assms(3)] show ?thesis
    by (simp add: detect_returns_iff)
qed

subsection \<open>Added frames\<close>

lemma classify_anomaly_props [simp]:
  "a_far_value (classify_anomaly g a) = a_far_value a"
  "bits_changed (classify_anomaly g a) = bits_changed a"
  "transient (classify_anomaly g a) = transient a"
  "anomaly_type a = FRAME_ADDED \<Longrightarrow> anomaly_type (classify_anomaly g a) = FRAME_ADDED"
  by (simp_all add: classify_anomaly_def Let_def)

lemma assess_anomaly_props [simp]:
  "a_far_value (assess_anomaly a) = a_far_value a"
  "bits_changed (assess_anomaly a) = bits_changed a"
  "transient (assess_anomaly a) = transient a"
  "anomaly_type (assess_anomaly a) = anomaly_type a"
  by (simp_all add: assess_anomaly_def split: prod.splits)

lemma assess_transient:
  "transient a \<Longrightarrow> severity (assess_anomaly a) = HIGH \<or> severity (assess_anomaly a) = CRITICAL"
  by (auto simp: assess_anomaly_def calculate_severity_def Let_def split: prod.splits if_splits)

lemma structural_added:
  assumes "detect_structural_differences g s = Inr st"
    and "far \<in> set (get_all_far_values s)" and "far \<notin> set (configured_fars g)"
  shows "\<exists>a. create_added_frame_anomaly far s = Some a \<and> a \<in> set st"
proof -
  from assms(2) obtain sf where "bs_get_frame s far = Some sf"
    by (auto simp: far_values_frame)
  then obtain a where a: "create_added_frame_anomaly far s = Some a"
    by (simp add: create_added_frame_anomaly_def Let_def)
  have "Inr [a] \<in> set
      (map (\<lambda>far. append_if (Inr (create_added_frame_anomaly far s)))
         (filter (\<lambda>far. far \<notin> set (get_expected_frames g)) (set_iter (get_all_far_values s)))
       @ map (\<lambda>far. append_if (create_removed_frame_anomaly far g))
           (filter (\<lambda>far. far \<notin> set (set_iter (get_all_far_values s)))
              (get_expected_frames g)))"
    using assms(2,3) a
    by (auto simp: get_expected_frames_def append_if_def image_iff intro!: bexI [of _ far])
  with assms(1) have "set [a] \<subseteq> set st"
    unfolding detect_structural_differences_def Let_def
    by (blast dest: extend_all_subset)
  with a show ?thesis by simp
qed

text \<open>
  \<open>count_set_bits\<close> is the number of bit offsets of the payload at which the bit is set.
\<close>

lemma popcount8_offsets:
  "popcount8 b = length (filter (\<lambda>off. bit b (7 - off)) [0 ..< 8])"
proof -
  have "[0 ..< 8] = rev (map (\<lambda>off. 7 - off) [0 ..< 8 :: nat])"
    by (simp add: upt_8)
  then have "popcount8 b = length (filter (bit b) (rev (map (\<lambda>off. 7 - off) [0 ..< 8])))"
    by (simp only: popcount8_def)
  also have "\<dots> = length (filter (\<lambda>off. bit b (7 - off)) [0 ..< 8])"
    by (simp only: rev_filter [symmetric] length_rev filter_map length_map comp_def)
  finally show ?thesis .
qed

lemma count_set_bits_offsets:
  "count_set_bits fd = length (filter (bit_at fd) [0 ..< 8 * length fd])"
proof (induction fd)
  case Nil
  then show ?case by (simp add: count_set_bits_def)
next
  case (Cons b fd)
  have split: "[0 ..< 8 * length (b # fd)] = [0 ..< 8] @ map (\<lambda>k. k + 8) [0 ..< 8 * length fd]"
  proof -
    have "[0 ..< 8 * length (b # fd)] = [0 ..< 8] @ [8 ..< 8 + 8 * length fd]"
      using upt_add_eq_append [of 0 8 "8 * length fd"] by simp
    moreover have "[8 ..< 8 + 8 * length fd] = map (\<lambda>k. k + 8) [0 ..< 8 * length fd]"
      using map_add_upt [of 8 "8 * length fd"] by (simp add: add.commute)
    ultimately show ?thesis by simp
  qed
  have hd: "filter (bit_at (b # fd)) [0 ..< 8] = filter (\<lambda>off. bit b (7 - off)) [0 ..< 8]"
    by (rule filter_cong) (simp_all add: bit_at_def)
  have tl: "filter (bit_at (b # fd)) (map (\<lambda>k. k + 8) [0 ..< 8 * length fd])
      = map (\<lambda>k. k + 8) (filter (bit_at fd) [0 ..< 8 * length fd])"
  proof -
    have "bit_at (b # fd) (k + 8) = bit_at fd k" for k
    proof -
      have "(k + 8) div 8 = Suc (k div 8)" "(k + 8) mod 8 = k mod 8"
        by simp_all
      then show ?thesis
        by (simp only: bit_at_def nth_Cons_Suc)
    qed
    then show ?thesis
      by (simp add: filter_map comp_def)
  qed
  have "count_set_bits (b # fd) = popcount8 b + count_set_bits fd"
    by (simp add: count_set_bits_def)
  with Cons.IH show ?case
    by (simp only: split filter_append length_append hd tl length_map popcount8_offsets)
qed

text \<open>
  In a run that ends with a report, a frame address that the suspect bitstream writes
  and the baseline does not know has a \<open>FRAME_ADDED\<close> anomaly in the report, and its
  \<open>bits_changed\<close> is the number of set bits of the suspect payload, whatever that
  number is: the five-bit floor is not consulted on this path. A report is returned
  when the payloads have their 164 bytes and no frame of the baseline is missing.
\<close>

lemma added_frame_reported:
  assumes "far \<in> set (get_all_far_values s)" and "far \<notin> set (configured_fars g)"
  shows "\<exists>sf. bs_get_frame s far = Some sf
           \<and> (\<forall>r. detect g s = Inr r \<longrightarrow>
                 (\<exists>a \<in> set (anomalies r). a_far_value a = far \<and> anomaly_type a = FRAME_ADDED
                    \<and> bits_changed a = count_set_bits (frame_data sf)))
           \<and> (golden_ok g \<and> suspect_ok s \<and> no_removed_frame g s \<longrightarrow>
                 (\<exists>r. detect g s = Inr r))"
proof -
  from assms(1) obtain sf where sf: "bs_get_frame s far = Some sf"
    by (auto simp: far_values_frame)
  have "\<exists>a \<in> set (anomalies r). a_far_value a = far \<and> anomaly_type a = FRAME_ADDED
           \<and> bits_changed a = count_set_bits (frame_data sf)"
    if r: "detect g s = Inr r" for r
  proof -
    from r obtain st da where st: "detect_structural_differences g s = Inr st"
      and an: "anomalies r = map assess_anomaly (map (classify_anomaly g) (st @ da))"
      by (rule detect_Inr)
    obtain a where a: "create_added_frame_anomaly far s = Some a" and mem: "a \<in> set st"
      using structural_added [OF st assms] by blast
    from create_added_props [OF a] sf have bits: "bits_changed a = count_set_bits (frame_data sf)"
      and far: "a_far_value a = far" and ty: "anomaly_type a = FRAME_ADDED"
      by auto
    let ?b = "assess_anomaly (classify_anomaly g a)"
    from mem an have "?b \<in> set (anomalies r)" by auto
    moreover have "a_far_value ?b = far" "anomaly_type ?b = FRAME_ADDED"
      "bits_changed ?b = count_set_bits (frame_data sf)"
      using far ty bits by simp_all
    ultimately show ?thesis by blast
  qed
  with sf detect_returns [of g s] show ?thesis by blast
qed

lemma count_set_bits_zero: "count_set_bits (payload_with 0) = 0"
  by (simp add: count_set_bits_def payload_with_def popcount8_def)

lemma golden_ok_empty: "golden_ok empty_baseline"
  by (simp add: golden_ok_def empty_baseline_def)

lemma suspect_ok_with: "suspect_ok (suspect_with b)"
  by (simp add: suspect_ok_def suspect_with_fields)

lemma added_frame_reported_example:
  "F1 \<in> set (get_all_far_values (suspect_with 0))
   \<and> F1 \<notin> set (configured_fars empty_baseline)
   \<and> count_set_bits (payload_with 0) = 0
   \<and> (\<exists>r. detect empty_baseline (suspect_with 0) = Inr r
          \<and> (\<exists>a \<in> set (anomalies r). a_far_value a = F1 \<and> anomaly_type a = FRAME_ADDED
                 \<and> bits_changed a = 0))"
proof -
  have h: "F1 \<in> set (get_all_far_values (suspect_with 0))"
    "F1 \<notin> set (configured_fars empty_baseline)"
    by (simp_all add: suspect_with_fields empty_baseline_def)
  have ok: "golden_ok empty_baseline \<and> suspect_ok (suspect_with 0)
      \<and> no_removed_frame empty_baseline (suspect_with 0)"
    by (simp add: golden_ok_empty suspect_ok_with no_removed_frame_def)
       (simp add: empty_baseline_def)
  have sf: "bs_get_frame (suspect_with 0) F1 = Some (frame_F1 (payload_with 0) 0)"
    by (simp add: bs_get_frame_def suspect_with_fields)
  from added_frame_reported [OF h] sf count_set_bits_zero h ok show ?thesis
    by auto
qed

lemma golden_F1F2_fields:
  "g_frames golden_F1F2 = [(F1, frame_F1 zero_payload 0), (F2, frame_F2 zero_payload 1)]"
  "configured_fars golden_F1F2 = [F2, F1]"
  by (simp_all add: golden_F1F2_def build_from_loaded_def loaded_bitstream_def
        build_indices_step_def add_frame_def set_write_history_def empty_baseline_def
        frame_F1_def frame_F2_def F1_def F2_def Let_def)

lemma suspect_F2_fields:
  "frame_by_far (suspect_F2 b) = [(F2, frame_F2 (payload_with b) 0)]"
  "get_all_far_values (suspect_F2 b) = [F2]"
  by (simp_all add: suspect_F2_def loaded_bitstream_def build_indices_step_def
        frame_F2_def get_all_far_values_def)

lemma structural_F2_missing:
  "detect_structural_differences golden_F1F2 (suspect_with b) = Inl NameError"
  by (simp add: detect_structural_differences_def Let_def get_expected_frames_def
        golden_F1F2_fields suspect_with_fields set_iter_def F1_def F2_def append_if_def
        create_removed_frame_anomaly_def g_get_frame_def)

lemma structural_F1_missing:
  "detect_structural_differences golden_F1 (suspect_F2 b) = Inl NameError"
  by (simp add: detect_structural_differences_def Let_def get_expected_frames_def
        golden_F1_fields suspect_F2_fields set_iter_def F1_def F2_def append_if_def
        create_removed_frame_anomaly_def create_added_frame_anomaly_def
        g_get_frame_def bs_get_frame_def)

lemma count_set_bits_1F: "count_set_bits (payload_with 0x1F) = 5"
  by (simp add: count_set_bits_def payload_with_def popcount8_def upt_8)

text \<open>
  C9 fails in a run that also lacks a frame of the baseline. The baseline holds the
  all-zero frame at \<open>F1\<close>; the suspect writes only \<open>F2\<close>, with five bits set. \<open>F2\<close> is an
  added frame, and phase 1 creates its \<open>FRAME_ADDED\<close> anomaly; the loop over the removed
  frames that follows reaches \<open>F1\<close> and raises \<open>NameError\<close> (the undefined name of
  \<open>_create_removed_frame_anomaly\<close>), so \<open>detect\<close> returns no report and the anomaly of
  the added frame is lost.
\<close>

theorem added_frame_lost_with_removed_frame:
  "bs_get_frame (suspect_F2 0x1F) F2 = Some (frame_F2 (payload_with 0x1F) 0)
   \<and> F2 \<notin> set (configured_fars golden_F1)
   \<and> create_added_frame_anomaly F2 (suspect_F2 0x1F) \<noteq> None
   \<and> detect golden_F1 (suspect_F2 0x1F) = Inl NameError"
  by (simp add: g_get_frame_def bs_get_frame_def golden_F1_fields suspect_F2_fields
        F1_def F2_def detect_def structural_F1_missing create_added_frame_anomaly_def
        Let_def)

subsection \<open>The noise floor on modified frames\<close>

lemma filter_concat_single:
  assumes "distinct xs" and "k \<in> set xs"
    and "\<forall>x \<in> set xs. x \<noteq> k \<longrightarrow> filter P (f x) = []"
  shows "filter P (concat (map f xs)) = filter P (f k)"
  using assms
proof (induction xs)
  case Nil
  then show ?case by simp
next
  case (Cons x xs)
  show ?case
  proof (cases "x = k")
    case True
    with Cons.prems have "\<forall>y \<in> set xs. filter P (f y) = []" by auto
    then have "filter P (concat (map f xs)) = []"
      by (induction xs) auto
    with True show ?thesis by simp
  next
    case False
    with Cons show ?thesis by auto
  qed
qed

lemma data_anomalies_concat:
  assumes "detect_data_differences g s = Inr da"
  shows "da = concat (map (\<lambda>far. projr (data_difference_at g s far))
                 (filter (\<lambda>far. far \<in> set (get_all_far_values s)) (get_expected_frames g)))"
    and "\<forall>far \<in> set (configured_fars g). far \<in> set (get_all_far_values s) \<longrightarrow>
           data_difference_at g s far = Inr (projr (data_difference_at g s far))"
proof -
  let ?common = "filter (\<lambda>far. far \<in> set (get_all_far_values s)) (get_expected_frames g)"
  from assms have e: "extend_all (map (data_difference_at g s) ?common) = Inr da"
    by (simp add: detect_data_differences_def Let_def)
  from extend_all_Inr [OF e]
  have m: "map (data_difference_at g s) ?common
             = map Inr (map projr (map (data_difference_at g s) ?common))"
    and d: "da = concat (map projr (map (data_difference_at g s) ?common))"
    by simp_all
  from d show "da = concat (map (\<lambda>far. projr (data_difference_at g s far)) ?common)"
    by (simp add: comp_def)
  from m have "\<forall>far \<in> set ?common.
      data_difference_at g s far = Inr (projr (data_difference_at g s far))"
    by (simp add: comp_def)
  then show "\<forall>far \<in> set (configured_fars g). far \<in> set (get_all_far_values s) \<longrightarrow>
           data_difference_at g s far = Inr (projr (data_difference_at g s far))"
    by (simp add: get_expected_frames_def)
qed

lemma anomalies_at_eq:
  assumes "detect g s = Inr r"
  obtains st da where "detect_structural_differences g s = Inr st"
    "detect_data_differences g s = Inr da"
    "length (anomalies_at r far) =
       length (filter (\<lambda>a. a_far_value a = far) st) + length (filter (\<lambda>a. a_far_value a = far) da)"
proof -
  from assms obtain st da where st: "detect_structural_differences g s = Inr st"
    and da: "detect_data_differences g s = Inr da"
    and an: "anomalies r = map assess_anomaly (map (classify_anomaly g) (st @ da))"
    by (rule detect_Inr)
  have "anomalies_at r far =
      map (assess_anomaly \<circ> classify_anomaly g) (filter (\<lambda>a. a_far_value a = far) (st @ da))"
    by (simp add: anomalies_at_def an filter_map comp_def)
  then have "length (anomalies_at r far) =
       length (filter (\<lambda>a. a_far_value a = far) st) + length (filter (\<lambda>a. a_far_value a = far) da)"
    by simp
  with st da show ?thesis by (rule that)
qed

lemma structural_not_at:
  assumes "detect_structural_differences g s = Inr st" and "far \<in> set (configured_fars g)"
  shows "filter (\<lambda>a. a_far_value a = far) st = []"
proof -
  have "a_far_value a \<noteq> far" if "a \<in> set st" for a
    using structural_anomaly [OF assms(1) that] assms(2)
    by (auto dest: create_added_props)
  then show ?thesis by (auto simp: filter_empty_conv)
qed

lemma data_at_common:
  assumes ok: "golden_ok g"
    and da: "detect_data_differences g s = Inr da"
    and far: "far \<in> set (configured_fars g)" "far \<in> set (get_all_far_values s)"
  shows "filter (\<lambda>a. a_far_value a = far) da
           = filter (\<lambda>a. a_far_value a = far) (projr (data_difference_at g s far))"
proof -
  let ?common = "filter (\<lambda>far. far \<in> set (get_all_far_values s)) (get_expected_frames g)"
  note c = data_anomalies_concat [OF da]
  have dist: "distinct ?common" by (simp add: get_expected_frames_def)
  have mem: "far \<in> set ?common" using far by (simp add: get_expected_frames_def)
  have other: "\<forall>x \<in> set ?common. x \<noteq> far \<longrightarrow>
      filter (\<lambda>a. a_far_value a = far) (projr (data_difference_at g s x)) = []"
  proof (intro ballI impI)
    fix x assume x: "x \<in> set ?common" and ne: "x \<noteq> far"
    then have d: "data_difference_at g s x = Inr (projr (data_difference_at g s x))"
      using c(2) by (simp add: get_expected_frames_def)
    have "a_far_value a = x" if "a \<in> set (projr (data_difference_at g s x))" for a
    proof -
      from data_difference_anomaly [OF d that] obtain gf sf tr ref where
        "g_get_frame g x = Some gf" "create_modified_frame_anomaly gf sf tr ref = Inr (Some a)"
        by blast
      then show ?thesis
        using golden_ok_frame(1) [OF ok] create_modified_props(2) by metis
    qed
    with ne show "filter (\<lambda>a. a_far_value a = far) (projr (data_difference_at g s x)) = []"
      by (auto simp: filter_empty_conv)
  qed
  show ?thesis
    unfolding c(1) by (rule filter_concat_single [OF dist mem other])
qed


lemma modified_frame_count:
  assumes "golden_ok g" and "suspect_ok s" and "far \<in> set (configured_fars g)"
    and gf: "g_get_frame g far = Some gf" and sf: "bs_get_frame s far = Some sf"
    and ne: "frame_data gf \<noteq> frame_data sf"
    and r: "detect g s = Inr r"
  shows "length (anomalies_at r far) =
           (if length (differing_bits (frame_data gf) (frame_data sf)) < 5 then 0 else 1)"
proof -
  from r obtain st da where st: "detect_structural_differences g s = Inr st"
    and da: "detect_data_differences g s = Inr da"
    and len: "length (anomalies_at r far) =
       length (filter (\<lambda>a. a_far_value a = far) st) + length (filter (\<lambda>a. a_far_value a = far) da)"
    by (rule anomalies_at_eq)
  have mem: "far \<in> set (get_all_far_values s)"
    using sf by (auto simp: far_values_frame)
  have dd: "data_difference_at g s far =
      append_if (create_modified_frame_anomaly gf sf False None)"
    using gf sf ne by (simp add: data_difference_at_def)
  have lg: "length (frame_data gf) = 164" and fv: "far_value gf = far"
    using golden_ok_frame [OF assms(1) gf] by simp_all
  have ls: "length (frame_data sf) = 164"
    using assms(2) sf by (rule suspect_ok_frame)
  obtain opt where opt: "create_modified_frame_anomaly gf sf False None = Inr opt"
    and none: "opt = None \<longleftrightarrow> length (differing_bits (frame_data gf) (frame_data sf)) < 5"
    using create_modified_164 [where ref = None and gf = gf and sf = sf and tr = False] lg ls
    by auto
  have "length (filter (\<lambda>a. a_far_value a = far) (projr (data_difference_at g s far))) =
      (if length (differing_bits (frame_data gf) (frame_data sf)) < 5 then 0 else 1)"
  proof (cases opt)
    case None
    with opt none dd show ?thesis by (simp add: append_if_def)
  next
    case (Some a)
    with opt have "a_far_value a = far_value gf" by (simp add: create_modified_props(2))
    with Some opt none dd fv show ?thesis by (simp add: append_if_def)
  qed
  with len structural_not_at [OF st assms(3)] data_at_common [OF assms(1) da assms(3) mem]
  show ?thesis by simp
qed

text \<open>
  In a run that ends with a report, a frame present on both sides whose payloads differ
  in exactly four bit positions leaves no anomaly for its address in the report, and one
  whose payloads differ in exactly five leaves exactly one. The report exists when no
  frame of the baseline is missing from the suspect.
\<close>

lemma noise_floor_without_removed_frame:
  assumes "golden_ok g" and "suspect_ok s" and "far \<in> set (configured_fars g)"
    and "g_get_frame g far = Some gf" and "bs_get_frame s far = Some sf"
  shows "(\<forall>r. detect g s = Inr r \<longrightarrow>
            (length (differing_bits (frame_data gf) (frame_data sf)) = 4 \<longrightarrow>
               anomalies_at r far = [])
            \<and> (length (differing_bits (frame_data gf) (frame_data sf)) = 5 \<longrightarrow>
                 length (anomalies_at r far) = 1))
         \<and> (no_removed_frame g s \<longrightarrow> (\<exists>r. detect g s = Inr r))"
proof -
  have four: "anomalies_at r far = []"
    if r: "detect g s = Inr r"
      and n: "length (differing_bits (frame_data gf) (frame_data sf)) = 4" for r
  proof -
    from n have "differing_bits (frame_data gf) (frame_data sf) \<noteq> []" by auto
    then have "frame_data gf \<noteq> frame_data sf" by auto
    from modified_frame_count [OF assms this r] n show ?thesis by simp
  qed
  have five: "length (anomalies_at r far) = 1"
    if r: "detect g s = Inr r"
      and n: "length (differing_bits (frame_data gf) (frame_data sf)) = 5" for r
  proof -
    from n have "differing_bits (frame_data gf) (frame_data sf) \<noteq> []" by auto
    then have "frame_data gf \<noteq> frame_data sf" by auto
    from modified_frame_count [OF assms this r] n show ?thesis by simp
  qed
  from four five detect_returns [OF assms(1,2)] show ?thesis by blast
qed

lemma golden_ok_F1: "golden_ok golden_F1"
  by (simp add: golden_ok_def golden_F1_fields zero_payload_def)

lemma no_removed_F1: "no_removed_frame golden_F1 (suspect_with b)"
  by (simp add: no_removed_frame_def golden_F1_fields suspect_with_fields)

lemma frames_F1:
  "g_get_frame golden_F1 F1 = Some (frame_F1 zero_payload 0)"
  "bs_get_frame (suspect_with b) F1 = Some (frame_F1 (payload_with b) 0)"
  by (simp_all add: g_get_frame_def bs_get_frame_def golden_F1_fields suspect_with_fields)

lemma noise_floor_example:
  "length (differing_bits zero_payload (payload_with 0x0F)) = 4
   \<and> (\<exists>r. detect golden_F1 (suspect_with 0x0F) = Inr r \<and> anomalies_at r F1 = [])
   \<and> length (differing_bits zero_payload (payload_with 0x1F)) = 5
   \<and> (\<exists>r. detect golden_F1 (suspect_with 0x1F) = Inr r \<and> length (anomalies_at r F1) = 1)"
proof -
  have far: "F1 \<in> set (configured_fars golden_F1)"
    by (simp add: golden_F1_fields)
  have four: "length (differing_bits (frame_data (frame_F1 zero_payload 0))
      (frame_data (frame_F1 (payload_with 0x0F) 0))) = 4"
    by (simp add: zero_payload_eq differing_bits_0_0F)
  have five: "length (differing_bits (frame_data (frame_F1 zero_payload 0))
      (frame_data (frame_F1 (payload_with 0x1F) 0))) = 5"
    by (simp add: zero_payload_eq differing_bits_0_1F)
  note a = noise_floor_without_removed_frame [OF golden_ok_F1 suspect_ok_with far frames_F1(1) frames_F1(2),
      of "0x0F"]
  note b = noise_floor_without_removed_frame [OF golden_ok_F1 suspect_ok_with far frames_F1(1) frames_F1(2),
      of "0x1F"]
  from a four no_removed_F1 [of "0x0F"]
  have "\<exists>r. detect golden_F1 (suspect_with 0x0F) = Inr r \<and> anomalies_at r F1 = []"
    by blast
  moreover from b five no_removed_F1 [of "0x1F"]
  have "\<exists>r. detect golden_F1 (suspect_with 0x1F) = Inr r \<and> length (anomalies_at r F1) = 1"
    by blast
  ultimately show ?thesis using four five by simp
qed

text \<open>
  C7 fails in a run that lacks another frame of the baseline. The baseline holds all-zero
  frames at \<open>F1\<close> and \<open>F2\<close>; the suspect writes only \<open>F1\<close>, with a payload that differs
  from the baseline in exactly five bit positions. \<open>F1\<close> is common to both sides, but
  phase 1 raises \<open>NameError\<close> on the missing \<open>F2\<close> (the undefined name of
  \<open>_create_removed_frame_anomaly\<close>) before phase 2 compares any payload: \<open>detect\<close>
  returns no report, and no anomaly is emitted for \<open>F1\<close>.
\<close>

theorem noise_floor_lost_with_removed_frame:
  "g_get_frame golden_F1F2 F1 = Some (frame_F1 zero_payload 0)
   \<and> bs_get_frame (suspect_with 0x1F) F1 = Some (frame_F1 (payload_with 0x1F) 0)
   \<and> length (differing_bits zero_payload (payload_with 0x1F)) = 5
   \<and> detect golden_F1F2 (suspect_with 0x1F) = Inl NameError"
  by (simp add: g_get_frame_def bs_get_frame_def golden_F1F2_fields suspect_with_fields
        zero_payload_eq differing_bits_0_1F detect_def structural_F2_missing)

subsection \<open>Identical inputs\<close>

lemma transient_identical:
  assumes "gh = map frame_data sh"
  shows "detect_transient_history_mismatches gf sh gh = Inr []"
proof -
  have "map (\<lambda>idx. if frame_data (sh ! idx) \<noteq> map frame_data sh ! idx
                  then append_if (create_modified_frame_anomaly gf (sh ! idx) True
                                    (Some (map frame_data sh ! idx)))
                  else Inr [])
           [0 ..< length sh] = map (\<lambda>idx. Inr []) [0 ..< length sh]"
    by (rule map_cong) simp_all
  also have "\<dots> = map Inr (map (\<lambda>idx. []) [0 ..< length sh])"
    by simp
  finally show ?thesis
    by (simp add: detect_transient_history_mismatches_def Let_def assms
          del: map_map)
qed

lemma data_difference_identical:
  assumes "map_option frame_data (g_get_frame g far) = map_option frame_data (bs_get_frame s far)"
    and "g_get_write_history g far = map frame_data (bs_get_write_history s far)"
  shows "data_difference_at g s far = Inr []"
  using assms
  by (auto simp: data_difference_at_def Let_def transient_identical split: option.splits)

text \<open>
  C8. When the baseline and the suspect bitstream hold the same frame addresses, the same
  payload at each and the same write history at each, \<open>detect\<close> returns a report with
  no anomaly, no Trojan verdict and no changed bit.
\<close>

theorem detect_identical_inputs:
  assumes "set (configured_fars g) = set (get_all_far_values s)"
    and "\<forall>far \<in> set (get_all_far_values s).
           map_option frame_data (g_get_frame g far) = map_option frame_data (bs_get_frame s far)"
    and "\<forall>far \<in> set (get_all_far_values s).
           g_get_write_history g far = map frame_data (bs_get_write_history s far)"
  shows "\<exists>r. detect g s = Inr r \<and> anomalies r = [] \<and> \<not> trojan_detected r
           \<and> total_bits_changed r = 0 \<and> verdict r = ''NO SIGNIFICANT ANOMALIES''"
proof -
  have st: "detect_structural_differences g s = Inr []"
    using assms(1)
    by (simp add: detect_structural_differences_def Let_def get_expected_frames_def)
  let ?common = "filter (\<lambda>far. far \<in> set (set_iter (get_all_far_values s))) (get_expected_frames g)"
  have "map (data_difference_at g s) ?common = map (\<lambda>far. Inr []) ?common"
    by (rule map_cong) (simp_all add: data_difference_identical assms(2,3))
  also have "\<dots> = map Inr (map (\<lambda>far. []) ?common)" by simp
  finally have da: "detect_data_differences g s = Inr []"
    by (simp add: detect_data_differences_def Let_def del: map_map)
  show ?thesis
    by (simp add: detect_def st da Let_def new_report_def finalize_def generate_summary_def)
qed


theorem detect_identical_inputs_witness:
  "set (configured_fars golden_F1) = set (get_all_far_values (suspect_with 0))
   \<and> map_option frame_data (g_get_frame golden_F1 F1)
       = map_option frame_data (bs_get_frame (suspect_with 0) F1)
   \<and> g_get_write_history golden_F1 F1
       = map frame_data (bs_get_write_history (suspect_with 0) F1)
   \<and> (\<exists>r. detect golden_F1 (suspect_with 0) = Inr r \<and> anomalies r = []
          \<and> \<not> trojan_detected r \<and> total_bits_changed r = 0
          \<and> verdict r = ''NO SIGNIFICANT ANOMALIES'')"
proof -
  have a: "set (configured_fars golden_F1) = set (get_all_far_values (suspect_with 0))"
    by (simp add: golden_F1_fields suspect_with_fields)
  have b: "map_option frame_data (g_get_frame golden_F1 F1)
       = map_option frame_data (bs_get_frame (suspect_with 0) F1)"
    by (simp add: frames_F1 zero_payload_eq)
  have c: "g_get_write_history golden_F1 F1
       = map frame_data (bs_get_write_history (suspect_with 0) F1)"
    by (simp add: g_get_write_history_def bs_get_write_history_def golden_F1_fields
          suspect_with_fields zero_payload_eq)
  have b': "\<forall>far \<in> set (get_all_far_values (suspect_with 0)).
      map_option frame_data (g_get_frame golden_F1 far)
        = map_option frame_data (bs_get_frame (suspect_with 0) far)"
    using b by (simp add: suspect_with_fields)
  have c': "\<forall>far \<in> set (get_all_far_values (suspect_with 0)).
      g_get_write_history golden_F1 far
        = map frame_data (bs_get_write_history (suspect_with 0) far)"
    using c by (simp add: suspect_with_fields)
  from detect_identical_inputs [OF a b' c'] a b c show ?thesis by simp
qed

subsection \<open>Transient writes\<close>

lemma suspect_ok_transient: "suspect_ok (suspect_transient b)"
  by (simp add: suspect_ok_def suspect_transient_fields zero_payload_def)

lemma no_removed_F1_transient: "no_removed_frame golden_F1 (suspect_transient b)"
  by (simp add: no_removed_frame_def golden_F1_fields suspect_transient_fields)

lemma frames_F1_transient:
  "bs_get_frame (suspect_transient b) F1 = Some (frame_F1 zero_payload 1)"
  "bs_get_write_history (suspect_transient b) F1 =
     [frame_F1 (payload_with b) 0, frame_F1 zero_payload 1]"
  "g_get_write_history golden_F1 F1 = [zero_payload]"
  by (simp_all add: bs_get_frame_def bs_get_write_history_def g_get_write_history_def
        golden_F1_fields suspect_transient_fields)

lemma upt_2: "[0 ..< 2] = [0, 1 :: nat]" "[Suc 0 ..< 2] = [1 :: nat]" "[1 ..< 2] = [1 :: nat]"
  by (simp_all add: upt_conv_Cons)

lemma data_F1_transient_one_bit:
  "detect_data_differences golden_F1 (suspect_transient 0x01) = Inr []"
  by (simp add: detect_data_differences_def Let_def get_expected_frames_def
        golden_F1_fields suspect_transient_fields data_difference_at_def frames_F1
        frames_F1_transient detect_transient_history_mismatches_def
        append_if_def create_modified_frame_anomaly_def
        zero_payload_eq compare_payload_with differing_bits_0_01
        min_bits_for_significance_def upt_2)

text \<open>
  C6 fails on a transient write of fewer than five bits. The baseline has one write of
  the all-zero payload at \<open>F1\<close>; the suspect writes a payload with one bit set and then
  the all-zero payload. The final payloads are equal and the histories differ at index
  0, so \<open>_detect_transient_history_mismatches\<close> is entered and finds the mismatch; it
  builds the anomaly with \<open>_create_modified_frame_anomaly\<close>, whose noise guard
  \<open>len(diff_bits) < min_bits_for_significance\<close> returns \<open>None\<close>, and the report is
  returned empty. The comment of \<open>_calculate_severity\<close>, ``Transient writes should never
  be ignored even if final state matches'', says what was meant.
\<close>

theorem transient_write_dropped:
  "map_option frame_data (g_get_frame golden_F1 F1)
     = map_option frame_data (bs_get_frame (suspect_transient 0x01) F1)
   \<and> g_get_write_history golden_F1 F1 = [zero_payload]
   \<and> map frame_data (bs_get_write_history (suspect_transient 0x01) F1)
       = [payload_with 0x01, zero_payload]
   \<and> payload_with 0x01 \<noteq> zero_payload
   \<and> map_sum id anomalies (detect golden_F1 (suspect_transient 0x01)) = Inr []"
  by (simp add: frames_F1 frames_F1_transient zero_payload_eq detect_def
        data_F1_transient_one_bit Let_def new_report_def finalize_def)

section \<open>Properties of the lexer\<close>

subsection \<open>The column walker\<close>

lemma max_minor_simps:
  "max_minor 0 = Some 36" "max_minor 1 = Some 36" "max_minor 2 = Some 36"
  "max_minor 3 = Some 30" "max_minor 4 = Some 36" "max_minor 5 = Some 28"
  "max_minor 6 = Some 36" "max_minor 7 = Some 54" "max_minor 8 = Some 36"
  "max_minor 9 = Some 30" "max_minor 10 = Some 36" "max_minor 11 = Some 28"
  "max_minor 12 = Some 36" "max_minor 13 = Some 54" "max_minor 14 = Some 36"
  "max_minor (Suc 0) = Some 36"
  by (simp_all add: max_minor_def MajorMinors_def)

lemma major_list_for_block_simps:
  "major_list_for_block 0 = Some [0, 1, 2, 4, 6, 8, 10, 12, 14]"
  "major_list_for_block 1 = Some [3, 9]"
  "major_list_for_block 3 = Some [5, 11]"
  "major_list_for_block 4 = Some [7, 13]"
  "major_list_for_block (Suc 0) = Some [3, 9]"
  by (simp_all add: major_list_for_block_def Blocks_def Blocks_Majors_def)

lemma Blocks_dom: "map_of Blocks b \<noteq> None \<longleftrightarrow> b = 0 \<or> b = 1 \<or> b = 3 \<or> b = 4"
  by (simp add: Blocks_def)

lemma major_list_for_block_Some:
  "major_list_for_block b = Some ml \<Longrightarrow> b = 0 \<or> b = 1 \<or> b = 3 \<or> b = 4"
  using Blocks_dom [of b] by (auto simp: major_list_for_block_def split: option.splits)

lemma next_block_code_simps:
  "next_block_code 0 = Some 1" "next_block_code 1 = Some 3"
  "next_block_code 3 = Some 4" "next_block_code 4 = None"
  "next_block_code (Suc 0) = Some 3"
  by (simp_all add: next_block_code_def Blocks_def upt_conv_Cons)

lemma major_list_max_minor:
  assumes "major_list_for_block b = Some ml" and "c \<in> set ml"
  shows "\<exists>m. max_minor c = Some m"
  using major_list_for_block_Some [OF assms(1)] assms
  by (auto simp: major_list_for_block_def Blocks_def Blocks_Majors_def max_minor_def
        MajorMinors_def)

lemma walker_step_ok:
  assumes ok: "walker_ok w"
  shows "\<exists>w'. walker_step w = Inr w' \<and> walker_ok w'
           \<and> walker_next (emit_frame w c i) (emit_frame w' c' i')"
proof -
  define ml where "ml = w_major_list w"
  from ok have ml: "major_list_for_block (w_block w) = Some ml"
    and idx: "w_maj_idx w < length ml" and col: "w_column w = ml ! w_maj_idx w"
    by (simp_all add: walker_ok_def ml_def)
  from idx col have "w_column w \<in> set ml" by simp
  with ml obtain m where m: "max_minor (w_column w) = Some m"
    by (blast dest: major_list_max_minor)
  show ?thesis
  proof (cases "w_minor w + 1 < m")
    case True
    then have "walker_step w = Inr (w\<lparr> w_minor := w_minor w + 1 \<rparr>)"
      by (simp add: walker_step_def m)
    moreover have "walker_ok (w\<lparr> w_minor := w_minor w + 1 \<rparr>)"
      using ok by (simp add: walker_ok_def)
    moreover have "walker_next (emit_frame w c i)
        (emit_frame (w\<lparr> w_minor := w_minor w + 1 \<rparr>) c' i')"
      using True by (simp add: walker_next_def emit_frame_def m)
    ultimately show ?thesis by blast
  next
    case wrap: False
    show ?thesis
    proof (cases "w_maj_idx w + 1 < length ml")
      case True
      define w' where "w' = w\<lparr> w_minor := 0, w_maj_idx := w_maj_idx w + 1,
          w_column := ml ! (w_maj_idx w + 1) \<rparr>"
      have "walker_step w = Inr w'"
        using wrap True by (simp add: walker_step_def m w'_def ml_def Let_def)
      moreover have "walker_ok w'"
        using ml True by (simp add: walker_ok_def w'_def ml_def)
      moreover have "walker_next (emit_frame w c i) (emit_frame w' c' i')"
      proof -
        have "w_maj_idx w \<in> set [0 ..< length ml - 1]"
          using True by simp
        moreover have "ml ! w_maj_idx w = w_column w \<and> ml ! (w_maj_idx w + 1) = w_column w'"
          using col by (simp add: w'_def)
        ultimately have "list_ex (\<lambda>j. ml ! j = w_column w \<and> ml ! (j + 1) = w_column w')
            [0 ..< length ml - 1]"
          unfolding list_ex_iff by blast
        then show ?thesis
          using wrap by (simp add: walker_next_def emit_frame_def m ml w'_def)
      qed
      ultimately show ?thesis by blast
    next
      case last: False
      with idx have "w_maj_idx w = length ml - 1" by simp
      with col idx have lastcol: "w_column w = last ml"
        by (cases ml rule: rev_cases) (simp_all add: last_conv_nth)
      have nx: "walker_next (emit_frame w c i) (emit_frame w' c' i')" if "w_minor w' = 0" for w'
        using wrap that by (simp add: walker_next_def emit_frame_def m ml lastcol [symmetric])
      from major_list_for_block_Some [OF ml]
      consider "w_block w = 0" | "w_block w = 1" | "w_block w = 3" | "w_block w = 4"
        by auto
      then obtain w' where "walker_step w = Inr w'" "walker_ok w'" "w_minor w' = 0"
      proof cases
        case 1
        define w' where "w' = \<lparr> w_block = 1, w_top_bottom = w_top_bottom w,
            w_column = 3, w_minor = 0, w_major_list = [3, 9], w_maj_idx = 0 \<rparr>"
        have "walker_step w = Inr w'"
          using wrap last 1
          by (simp add: walker_step_def m ml_def [symmetric] Let_def next_block_code_simps
                major_list_for_block_simps w'_def)
        moreover have "walker_ok w'" "w_minor w' = 0"
          by (simp_all add: walker_ok_def w'_def major_list_for_block_simps)
        ultimately show ?thesis by (rule that)
      next
        case 2
        define w' where "w' = \<lparr> w_block = 3, w_top_bottom = w_top_bottom w,
            w_column = 5, w_minor = 0, w_major_list = [5, 11], w_maj_idx = 0 \<rparr>"
        have "walker_step w = Inr w'"
          using wrap last 2
          by (simp add: walker_step_def m ml_def [symmetric] Let_def next_block_code_simps
                major_list_for_block_simps w'_def)
        moreover have "walker_ok w'" "w_minor w' = 0"
          by (simp_all add: walker_ok_def w'_def major_list_for_block_simps)
        ultimately show ?thesis by (rule that)
      next
        case 3
        define w' where "w' = \<lparr> w_block = 4, w_top_bottom = w_top_bottom w,
            w_column = 7, w_minor = 0, w_major_list = [7, 13], w_maj_idx = 0 \<rparr>"
        have "walker_step w = Inr w'"
          using wrap last 3
          by (simp add: walker_step_def m ml_def [symmetric] Let_def next_block_code_simps
                major_list_for_block_simps w'_def)
        moreover have "walker_ok w'" "w_minor w' = 0"
          by (simp_all add: walker_ok_def w'_def major_list_for_block_simps)
        ultimately show ?thesis by (rule that)
      next
        case 4
        define w' where "w' = \<lparr> w_block = 0, w_top_bottom = w_top_bottom w XOR 1,
            w_column = 0, w_minor = 0, w_major_list = [0, 1, 2, 4, 6, 8, 10, 12, 14],
            w_maj_idx = 0 \<rparr>"
        have "walker_step w = Inr w'"
          using wrap last 4
          by (simp add: walker_step_def m ml_def [symmetric] Let_def next_block_code_simps
                major_list_for_block_simps w'_def)
        moreover have "walker_ok w'" "w_minor w' = 0"
          by (simp_all add: walker_ok_def w'_def major_list_for_block_simps)
        ultimately show ?thesis by (rule that)
      qed
      with nx show ?thesis by blast
    qed
  qed
qed

lemma generate_loop_ok:
  assumes "walker_ok w" and "length chunks \<le> max_iter"
  shows "\<exists>fs. generate_loop w chunks i max_iter = Inr fs \<and> length fs = length chunks
           \<and> (\<forall>c cs. chunks = c # cs \<longrightarrow> hd fs = emit_frame w c i)
           \<and> (\<forall>k. k + 1 < length fs \<longrightarrow> walker_next (fs ! k) (fs ! (k + 1)))"
  using assms
proof (induction chunks arbitrary: w i max_iter)
  case Nil
  then show ?case by simp
next
  case (Cons chunk rest)
  from Cons.prems(2) have mi: "max_iter \<noteq> 0" "length rest \<le> max_iter - 1" by simp_all
  define c' where "c' = (case rest of [] \<Rightarrow> chunk | c # _ \<Rightarrow> c)"
  from walker_step_ok [OF Cons.prems(1), of chunk i c' "i + 1"]
  obtain w' where w': "walker_step w = Inr w'" "walker_ok w'"
    "walker_next (emit_frame w chunk i) (emit_frame w' c' (i + 1))"
    by blast
  from Cons.IH [OF w'(2) mi(2), of "i + 1"]
  obtain fs where fs: "generate_loop w' rest (i + 1) (max_iter - 1) = Inr fs"
    "length fs = length rest"
    "\<forall>c cs. rest = c # cs \<longrightarrow> hd fs = emit_frame w' c (i + 1)"
    "\<forall>k. k + 1 < length fs \<longrightarrow> walker_next (fs ! k) (fs ! (k + 1))"
    by blast
  have res: "generate_loop w (chunk # rest) i max_iter = Inr (emit_frame w chunk i # fs)"
    using mi(1) w'(1) fs(1) by simp
  have nxt: "walker_next ((emit_frame w chunk i # fs) ! k) ((emit_frame w chunk i # fs) ! (k + 1))"
    if k: "k + 1 < length (emit_frame w chunk i # fs)" for k
  proof (cases k)
    case 0
    with k fs(2) obtain c cs where rest: "rest = c # cs"
      by (cases rest) auto
    with fs(3) have "hd fs = emit_frame w' c (i + 1)" by blast
    moreover from rest fs(2) have "fs \<noteq> []" by auto
    ultimately have "fs ! 0 = emit_frame w' c' (i + 1)"
      by (simp add: hd_conv_nth c'_def rest)
    with w'(3) 0 show ?thesis by simp
  next
    case (Suc j)
    with k have "j + 1 < length fs" by simp
    with fs(4) have "walker_next (fs ! j) (fs ! (j + 1))" by blast
    with Suc show ?thesis by simp
  qed
  let ?F = "emit_frame w chunk i # fs"
  from nxt have "\<forall>k. k + 1 < length ?F \<longrightarrow> walker_next (?F ! k) (?F ! (k + 1))"
    by blast
  moreover have "length ?F = length (chunk # rest)"
    using fs(2) by simp
  moreover have "\<forall>c cs. chunk # rest = c # cs \<longrightarrow> hd ?F = emit_frame w c i"
    by simp
  ultimately show ?case
    using res by blast
qed

lemma index_of_Some:
  "index_of xs x = Some k \<Longrightarrow> k < length xs \<and> xs ! k = x"
proof -
  assume a: "index_of xs x = Some k"
  then have x: "x \<in> set xs" and k: "k = length (takeWhile (\<lambda>y. y \<noteq> x) xs)"
    by (auto simp: index_of_def split: if_splits)
  from x have "takeWhile (\<lambda>y. y \<noteq> x) xs \<noteq> xs"
    by (auto simp: takeWhile_eq_all_conv)
  then have "length (takeWhile (\<lambda>y. y \<noteq> x) xs) \<noteq> length xs"
    by (metis takeWhile_eq_take take_all_iff order_refl)
  with length_takeWhile_le [of "\<lambda>y. y \<noteq> x" xs] have lt: "k < length xs"
    by (simp add: k)
  with nth_length_takeWhile [of "\<lambda>y. y \<noteq> x" xs] show ?thesis
    by (simp add: k)
qed

text \<open>
  C4, as stated, fails. Started at block 0, column 0, minor 35 on a payload of two frames,
  the walker puts the second frame at column 1, minor 0, while the column table of
  \<open>FrameAddress\<close> gives column 0 (an IOB column) 54 frames: the walker reads the table
  \<open>MajorMinors\<close> of the lexer, where column 0 has 36.
\<close>

theorem walker_ignores_column_map_counterexample:
  "get_frames_per_column 0 = 54
   \<and> generate_frames (0, 0, 0, 0, 35) [zero_chunk, zero_chunk] 0
       = Inr [\<lparr> far_raw = 4587520, fo_block_type = 0, fo_top_bottom = 0, fo_column = 0,
                 fo_major = 0, fo_minor = 35, data_words = zero_chunk, idx = 0 \<rparr>,
              \<lparr> far_raw = 8388608, fo_block_type = 0, fo_top_bottom = 0, fo_column = 1,
                 fo_major = 1, fo_minor = 0, data_words = zero_chunk, idx = 1 \<rparr>]"
  by (simp add: get_frames_per_column_def COLUMN_MAP_def generate_frames_def
        major_list_for_block_simps index_of_def walker_step_def max_minor_simps
        emit_frame_def pack_far_def Let_def)

text \<open>
  C4, amended. For a start address whose block code the lexer knows, \<open>generate_frames\<close>
  returns one frame per payload frame, and each frame follows the one before it by the
  lexer's own table: while the incremented minor is below \<open>MajorMinors[column]\<close> (36 for
  columns 0, 1, 2, 4, 6, 8, 10, 12 and 14, 30 for 3 and 9, 28 for 5 and 11, 54 for 7 and
  13) it is the next minor of the same column, and only then the minor wraps to 0 and,
  unless the column is the last of its block, the column becomes the next one of the
  major list of the same block.
\<close>

theorem walker_follows_lexer_table:
  assumes "map_of Blocks block \<noteq> None"
  shows "\<exists>fs. generate_frames (block, tb, col, maj, mnr) chunks i = Inr fs
           \<and> length fs = length chunks
           \<and> (\<forall>k. k + 1 < length fs \<longrightarrow> walker_next (fs ! k) (fs ! (k + 1)))"
proof -
  from assms have "block = 0 \<or> block = 1 \<or> block = 3 \<or> block = 4"
    unfolding Blocks_dom .
  then obtain ml where ml: "major_list_for_block block = Some ml" and ne: "ml \<noteq> []"
    by (auto simp: major_list_for_block_simps)
  define st where "st = (case index_of ml col of Some k \<Rightarrow> (k, col) | None \<Rightarrow> (0, ml ! 0))"
  define w where "w = \<lparr> w_block = block, w_top_bottom = tb, w_column = snd st,
      w_minor = mnr, w_major_list = ml, w_maj_idx = fst st \<rparr>"
  have "fst st < length ml \<and> snd st = ml ! fst st"
    using ne by (auto simp: st_def dest: index_of_Some split: option.splits)
  then have ok: "walker_ok w"
    by (simp add: walker_ok_def w_def ml)
  have gf: "generate_frames (block, tb, col, maj, mnr) chunks i
      = generate_loop w chunks i (length chunks * 4 + 1000)"
    by (simp add: generate_frames_def ml w_def st_def Let_def split: option.splits prod.splits)
  from generate_loop_ok [OF ok, of chunks "length chunks * 4 + 1000" i] gf
  show ?thesis by auto
qed

theorem walker_follows_lexer_table_witness:
  "map_of Blocks 0 \<noteq> None
   \<and> (\<exists>fs. generate_frames (0, 0, 0, 0, 35) [zero_chunk, zero_chunk] 0 = Inr fs
          \<and> length fs = 2 \<and> walker_next (fs ! 0) (fs ! 1))"
proof -
  have b: "map_of Blocks 0 \<noteq> None"
    by (simp add: Blocks_def)
  from walker_follows_lexer_table [OF b, of 0 0 0 35 "[zero_chunk, zero_chunk]" 0]
  obtain fs where fs: "generate_frames (0, 0, 0, 0, 35) [zero_chunk, zero_chunk] 0 = Inr fs"
    "length fs = length [zero_chunk, zero_chunk]"
    "\<forall>k. k + 1 < length fs \<longrightarrow> walker_next (fs ! k) (fs ! (k + 1))"
    by blast
  from fs(2) have l: "length fs = 2" by simp
  with fs(3) have "walker_next (fs ! 0) (fs ! (0 + 1))" by (simp del: One_nat_def)
  then have "walker_next (fs ! 0) (fs ! 1)" by simp
  with b fs(1) l show ?thesis by blast
qed

subsection \<open>Type-1 writes of one word\<close>

lemma and_mask_nat:
  "m = 2 ^ k - 1 \<Longrightarrow> (x :: nat) AND m = x mod 2 ^ k"
proof -
  assume "m = 2 ^ k - 1"
  then have "m = mask k"
    by (simp only: mask_eq_exp_minus_1)
  then have "x AND m = take_bit k x"
    by (simp only: take_bit_eq_mask)
  then show ?thesis
    by (simp only: take_bit_eq_mod)
qed

lemma field_nat:
  "m = 2 ^ k - 1 \<Longrightarrow> drop_bit n (x :: nat) AND m = x div 2 ^ n mod 2 ^ k"
  by (simp add: and_mask_nat drop_bit_eq_div)

lemma take4_drop:
  assumes "p + 4 \<le> length payload"
  shows "take 4 (drop p payload)
           = [payload ! p, payload ! (p + 1), payload ! (p + 2), payload ! (p + 3)]"
proof -
  have l: "length (take 4 (drop p payload)) = 4"
    using assms by simp
  have n: "take 4 (drop p payload) ! k = payload ! (p + k)" if "k < 4" for k
    using that assms by simp
  show ?thesis
    by (rule nth_equalityI) (use l n in \<open>auto simp: nth_Cons' less_Suc_eq numeral_eq_Suc\<close>)
qed

lemma from_bytes_big_word_at:
  "p + 4 \<le> length payload \<Longrightarrow> from_bytes_big (take 4 (drop p payload)) = word_at payload p"
  by (simp add: take4_drop from_bytes_big_def word_at_def)

lemma interpret_far_fields:
  assumes "p + 4 \<le> length payload" and "v = word_at payload p"
  shows "interpret_far (Some (take 4 (drop p payload)))
           = Inr (v div 2 ^ 29 mod 8, v div 2 ^ 28 mod 2, v div 2 ^ 23 mod 32,
                  v div 2 ^ 23 mod 64, v div 2 ^ 17 mod 64)"
proof -
  have v: "from_bytes_big (take 4 (drop p payload)) = v"
    using assms by (simp add: from_bytes_big_word_at)
  have b: "drop_bit 29 v AND 0b111 = v div 2 ^ 29 mod 8"
    using field_nat [of 7 3 29 v] by simp
  have m: "drop_bit 23 v AND 0b111111 = v div 2 ^ 23 mod 64"
    using field_nat [of 63 6 23 v] by simp
  have n: "drop_bit 17 v AND 0b111111 = v div 2 ^ 17 mod 64"
    using field_nat [of 63 6 17 v] by simp
  have c: "(v div 2 ^ 23 mod 64) AND 0b11111 = v div 2 ^ 23 mod 32"
  proof -
    have "(v div 2 ^ 23 mod 64) AND 31 = v div 2 ^ 23 mod 64 mod 32"
      using and_mask_nat [of 31 5 "v div 2 ^ 23 mod 64"] by simp
    also have "\<dots> = v div 2 ^ 23 mod 32"
      by (rule mod_mod_cancel) simp
    finally show ?thesis by simp
  qed
  have t: "drop_bit 5 (v div 2 ^ 23 mod 64) AND 0b1 = v div 2 ^ 28 mod 2"
  proof -
    have "drop_bit 5 (v div 2 ^ 23 mod 64) AND 1 = (v div 2 ^ 23 mod 64) div 2 ^ 5 mod 2 ^ 1"
      using field_nat [of 1 1 5 "v div 2 ^ 23 mod 64"] by simp
    also have "\<dots> = drop_bit 5 (take_bit 6 (drop_bit 23 v)) mod 2"
      by (simp add: drop_bit_eq_div take_bit_eq_mod)
    also have "\<dots> = take_bit 1 (drop_bit 28 v) mod 2"
      by (simp add: drop_bit_take_bit)
    also have "\<dots> = v div 2 ^ 28 mod 2"
      by (simp add: drop_bit_eq_div take_bit_eq_mod)
    finally show ?thesis by simp
  qed
  show ?thesis
    unfolding interpret_far_def option.case v Let_def m
    by (simp only: b n c t)
qed

lemma do_lexing_type1:
  assumes "hdr = from_bytes_big packet"
    and "hdr div 2 ^ 29 mod 8 = 1" and "hdr div 2 ^ 27 mod 4 = 2" and "hdr mod 2 ^ 13 = 1"
  shows "do_lexing payload packet p
           = (Some (FAR WRITE (hdr div 2 ^ 13 mod 2 ^ 16) 1 (fst (advance payload p))),
              snd (advance payload p))"
proof -
  have t: "drop_bit 29 hdr AND 0x7 = 1"
    using field_nat [of 7 3 29 hdr] assms(2) by simp
  have o: "drop_bit 27 hdr AND 0x3 = 2"
    using field_nat [of 3 2 27 hdr] assms(3) by simp
  have r: "drop_bit 13 hdr AND 0xFFFF = hdr div 2 ^ 13 mod 2 ^ 16"
    using field_nat [of 65535 16 13 hdr] by simp
  have w: "hdr AND 0x1FFF = 1"
    using and_mask_nat [of 8191 13 hdr] assms(4) by simp
  show ?thesis
    unfolding do_lexing_def Let_def assms(1) [symmetric] t o r w
    by (simp add: opcode_def split: prod.splits)
qed

lemma read_words_room:
  "p + 4 * n \<le> length payload \<Longrightarrow>
   \<exists>ws. read_words payload p n = (ws, p + 4 * n) \<and> length ws = n"
proof (induction n arbitrary: p)
  case 0
  then show ?case by simp
next
  case (Suc n)
  then have a: "advance payload p = (Some (take 4 (drop p payload)), p + 4)"
    by (simp add: advance_def)
  from Suc.prems have "(p + 4) + 4 * n \<le> length payload" by simp
  from Suc.IH [OF this]
  obtain ws where "read_words payload (p + 4) n = (ws, p + 4 + 4 * n)" "length ws = n"
    by blast
  then show ?case
    by (simp add: a)
qed

lemma length_chunk_frames: "length (chunk_frames ws) = (length ws + 40) div 41"
  by (simp add: chunk_frames_def)

lemma do_lexing_type2:
  assumes "hdr = from_bytes_big packet"
    and "hdr div 2 ^ 29 mod 8 = 2" and "hdr mod 2 ^ 25 = n"
    and "p + 4 * n \<le> length payload"
  shows "\<exists>op chunks. do_lexing payload packet p = (Some (FDRI op n chunks), p + 4 * n)
           \<and> length chunks = (n + 40) div 41"
proof -
  have t: "drop_bit 29 hdr AND 0x7 = 2"
    using field_nat [of 7 3 29 hdr] assms(2) by simp
  have w: "hdr AND 0x1FFFFFF = n"
    using and_mask_nat [of 33554431 25 hdr] assms(3) by simp
  from read_words_room [OF assms(4)]
  obtain ws where ws: "read_words payload p n = (ws, p + 4 * n)" "length ws = n"
    by blast
  show ?thesis
    unfolding do_lexing_def Let_def assms(1) [symmetric] t w
    by (simp add: ws length_chunk_frames)
qed

lemma generate_frames_first:
  assumes "major_list_for_block block = Some ml" and "chunks \<noteq> []"
  shows "\<exists>fs. generate_frames (block, tb, col, maj, mnr) chunks i = Inr fs
           \<and> length fs = length chunks
           \<and> fo_block_type (hd fs) = block \<and> fo_top_bottom (hd fs) = tb
           \<and> fo_column (hd fs) = (if col \<in> set ml then col else ml ! 0)
           \<and> fo_minor (hd fs) = mnr \<and> idx (hd fs) = i"
proof -
  from major_list_for_block_Some [OF assms(1)] assms(1) have ne: "ml \<noteq> []"
    by (auto simp: major_list_for_block_simps)
  define st where "st = (case index_of ml col of Some k \<Rightarrow> (k, col) | None \<Rightarrow> (0, ml ! 0))"
  define w where "w = \<lparr> w_block = block, w_top_bottom = tb, w_column = snd st,
      w_minor = mnr, w_major_list = ml, w_maj_idx = fst st \<rparr>"
  have "fst st < length ml \<and> snd st = ml ! fst st"
    using ne by (auto simp: st_def dest: index_of_Some split: option.splits)
  then have ok: "walker_ok w"
    by (simp add: walker_ok_def w_def assms(1))
  have col: "snd st = (if col \<in> set ml then col else ml ! 0)"
    by (simp add: st_def index_of_def)
  have gf: "generate_frames (block, tb, col, maj, mnr) chunks i
      = generate_loop w chunks i (length chunks * 4 + 1000)"
    by (simp add: generate_frames_def assms(1) w_def st_def Let_def
          split: option.splits prod.splits)
  from assms(2) obtain c cs where c: "chunks = c # cs"
    by (cases chunks) auto
  from generate_loop_ok [OF ok, of chunks "length chunks * 4 + 1000" i]
  obtain fs where fs: "generate_loop w chunks i (length chunks * 4 + 1000) = Inr fs"
    "length fs = length chunks" "hd fs = emit_frame w c i"
    using c by auto
  from fs(3) col have "fo_block_type (hd fs) = block" "fo_top_bottom (hd fs) = tb"
    "fo_column (hd fs) = (if col \<in> set ml then col else ml ! 0)"
    "fo_minor (hd fs) = mnr" "idx (hd fs) = i"
    by (simp_all add: emit_frame_def w_def)
  with gf fs(1,2) show ?thesis by simp
qed

lemma generate_frames_unknown_block:
  "major_list_for_block block = None \<Longrightarrow>
   generate_frames (block, tb, col, maj, mnr) chunks i = Inl ValueError"
  by (simp add: generate_frames_def)

lemma fdri_step:
  assumes far: "lx_last_far lx' = Some (block, tb, col, maj, mnr)"
    and room: "lx_pos lx' + 4 + 4 * n \<le> length payload"
    and ty: "word_at payload (lx_pos lx') div 2 ^ 29 mod 8 = 2"
    and wc: "word_at payload (lx_pos lx') mod 2 ^ 25 = n" and n: "0 < n"
  shows "case major_list_for_block block of
           None \<Rightarrow> lexer_step payload lx' = Inl ValueError
         | Some ml \<Rightarrow>
             \<exists>lx'' fs. lexer_step payload lx' = Inr lx''
               \<and> lx_pos lx'' = lx_pos lx' + 4 + 4 * n
               \<and> lx_result lx'' = lx_result lx' @ fs
               \<and> lx_last_far lx'' = lx_last_far lx'
               \<and> length fs = (n + 40) div 41
               \<and> fo_block_type (hd fs) = block \<and> fo_top_bottom (hd fs) = tb
               \<and> fo_column (hd fs) = (if col \<in> set ml then col else ml ! 0)
               \<and> fo_minor (hd fs) = mnr
               \<and> idx (hd fs) = length (lx_result lx')"
proof -
  let ?p = "lx_pos lx'"
  let ?pk = "take 4 (drop ?p payload)"
  from room have r4: "?p + 4 \<le> length payload" by simp
  then have a: "advance payload ?p = (Some ?pk, ?p + 4)"
    by (simp add: advance_def)
  have hdr: "word_at payload ?p = from_bytes_big ?pk"
    using r4 by (simp add: from_bytes_big_word_at)
  from room have "(?p + 4) + 4 * n \<le> length payload" by simp
  from do_lexing_type2 [OF hdr ty wc this]
  obtain op chunks where dl: "do_lexing payload ?pk (?p + 4)
      = (Some (FDRI op n chunks), ?p + 4 + 4 * n)"
    and len: "length chunks = (n + 40) div 41"
    by blast
  from n len have ne: "chunks \<noteq> []" by auto
  have step: "lexer_step payload lx'
      = (case generate_frames (block, tb, col, maj, mnr) chunks (length (lx_result lx')) of
           Inl e \<Rightarrow> Inl e
         | Inr fs \<Rightarrow>
             Inr (lx'\<lparr> lx_pos := ?p + 4 + 4 * n,
                      lx_toks := lx_toks lx' @ [FDRI op n chunks],
                      lx_result := lx_result lx' @ fs \<rparr>))"
    unfolding lexer_step_def a by (simp add: dl far)
  show ?thesis
  proof (cases "major_list_for_block block")
    case None
    then show ?thesis
      by (simp add: step generate_frames_unknown_block)
  next
    case (Some ml)
    from generate_frames_first [OF Some ne, of tb col maj mnr "length (lx_result lx')"]
    obtain fs where fs: "generate_frames (block, tb, col, maj, mnr) chunks
        (length (lx_result lx')) = Inr fs" "length fs = length chunks"
      "fo_block_type (hd fs) = block" "fo_top_bottom (hd fs) = tb"
      "fo_column (hd fs) = (if col \<in> set ml then col else ml ! 0)"
      "fo_minor (hd fs) = mnr" "idx (hd fs) = length (lx_result lx')"
      by blast
    let ?lx = "lx'\<lparr> lx_pos := ?p + 4 + 4 * n,
                   lx_toks := lx_toks lx' @ [FDRI op n chunks],
                   lx_result := lx_result lx' @ fs \<rparr>"
    have "lexer_step payload lx' = Inr ?lx"
      by (simp add: step fs(1))
    moreover have "lx_pos ?lx = ?p + 4 + 4 * n" "lx_result ?lx = lx_result lx' @ fs"
      "lx_last_far ?lx = lx_last_far lx'"
      by simp_all
    ultimately have "\<exists>lx'' fs. lexer_step payload lx' = Inr lx''
               \<and> lx_pos lx'' = lx_pos lx' + 4 + 4 * n
               \<and> lx_result lx'' = lx_result lx' @ fs
               \<and> lx_last_far lx'' = lx_last_far lx'
               \<and> length fs = (n + 40) div 41
               \<and> fo_block_type (hd fs) = block \<and> fo_top_bottom (hd fs) = tb
               \<and> fo_column (hd fs) = (if col \<in> set ml then col else ml ! 0)
               \<and> fo_minor (hd fs) = mnr
               \<and> idx (hd fs) = length (lx_result lx')"
      using fs(2-) len by (intro exI [of _ ?lx] exI [of _ fs]) simp
    with Some show ?thesis by simp
  qed
qed

text \<open>
  C10. Let the four bytes at the read position be the header of a Type-1 packet (bits
  31 to 29 are \<open>001\<close>) with opcode \<open>WRITE\<close> (bits 28 and 27 are \<open>10\<close>) and word count 1
  (bits 12 to 0), and let the word of the packet be there, with value \<open>v\<close>. Whatever the
  register address field of the header holds, one step of the lexer takes header and
  word, appends a \<open>FAR\<close> token, and sets \<open>last_far\<close> to the fields of \<open>v\<close>: block (bits
  31 to 29), top/bottom (bit 28), column (bits 27 to 23), major (bits 28 to 23) and
  minor (bits 22 to 17). From then on, as long as \<open>last_far\<close> holds these fields, the step
  at a Type-2 packet of \<open>n > 0\<close> words that are all there raises \<open>ValueError\<close> if the lexer
  does not know the block code, and otherwise appends \<open>\<lceil>n / 41\<rceil>\<close> frames of which the
  first carries the block, top/bottom and minor of \<open>v\<close>, and the column of \<open>v\<close> if the block
  has that column (the first column of the block if not).
\<close>

theorem type1_write_sets_far:
  assumes "lx_pos lx + 8 \<le> length payload"
    and "hdr = word_at payload (lx_pos lx)"
    and "hdr div 2 ^ 29 mod 8 = 1" and "hdr div 2 ^ 27 mod 4 = 2" and "hdr mod 2 ^ 13 = 1"
    and "v = word_at payload (lx_pos lx + 4)"
  shows "lexer_step payload lx
           = Inr (lx\<lparr> lx_pos := lx_pos lx + 8,
                    lx_toks := lx_toks lx
                      @ [FAR WRITE (hdr div 2 ^ 13 mod 2 ^ 16) 1
                           (Some (take 4 (drop (lx_pos lx + 4) payload)))],
                    lx_last_far := Some (v div 2 ^ 29 mod 8, v div 2 ^ 28 mod 2,
                      v div 2 ^ 23 mod 32, v div 2 ^ 23 mod 64, v div 2 ^ 17 mod 64) \<rparr>)
         \<and> (\<forall>lx' n.
               lx_last_far lx' = Some (v div 2 ^ 29 mod 8, v div 2 ^ 28 mod 2,
                 v div 2 ^ 23 mod 32, v div 2 ^ 23 mod 64, v div 2 ^ 17 mod 64)
               \<and> lx_pos lx' + 4 + 4 * n \<le> length payload
               \<and> word_at payload (lx_pos lx') div 2 ^ 29 mod 8 = 2
               \<and> word_at payload (lx_pos lx') mod 2 ^ 25 = n \<and> 0 < n \<longrightarrow>
               (case major_list_for_block (v div 2 ^ 29 mod 8) of
                  None \<Rightarrow> lexer_step payload lx' = Inl ValueError
                | Some ml \<Rightarrow>
                    \<exists>lx'' fs. lexer_step payload lx' = Inr lx''
                      \<and> lx_pos lx'' = lx_pos lx' + 4 + 4 * n
                      \<and> lx_result lx'' = lx_result lx' @ fs
                      \<and> lx_last_far lx'' = lx_last_far lx'
                      \<and> length fs = (n + 40) div 41
                      \<and> fo_block_type (hd fs) = v div 2 ^ 29 mod 8
                      \<and> fo_top_bottom (hd fs) = v div 2 ^ 28 mod 2
                      \<and> fo_column (hd fs)
                          = (if v div 2 ^ 23 mod 32 \<in> set ml then v div 2 ^ 23 mod 32
                             else ml ! 0)
                      \<and> fo_minor (hd fs) = v div 2 ^ 17 mod 64
                      \<and> idx (hd fs) = length (lx_result lx')))"
proof -
  let ?p = "lx_pos lx"
  let ?word = "take 4 (drop (?p + 4) payload)"
  from assms(1) have r4: "?p + 4 \<le> length payload" and r8: "(?p + 4) + 4 \<le> length payload"
    by simp_all
  have a1: "advance payload ?p = (Some (take 4 (drop ?p payload)), ?p + 4)"
    using r4 by (simp add: advance_def)
  have a2: "advance payload (?p + 4) = (Some ?word, ?p + 8)"
    using r8 by (simp add: advance_def)
  have hdr: "hdr = from_bytes_big (take 4 (drop ?p payload))"
    using r4 assms(2) by (simp add: from_bytes_big_word_at)
  have dl: "do_lexing payload (take 4 (drop ?p payload)) (?p + 4)
      = (Some (FAR WRITE (hdr div 2 ^ 13 mod 2 ^ 16) 1 (Some ?word)), ?p + 8)"
    using do_lexing_type1 [OF hdr assms(3,4,5), of payload "?p + 4"] by (simp add: a2)
  have far: "interpret_far (Some ?word)
      = Inr (v div 2 ^ 29 mod 8, v div 2 ^ 28 mod 2, v div 2 ^ 23 mod 32,
             v div 2 ^ 23 mod 64, v div 2 ^ 17 mod 64)"
    using r8 assms(6) by (rule interpret_far_fields)
  have first: "lexer_step payload lx
           = Inr (lx\<lparr> lx_pos := lx_pos lx + 8,
                    lx_toks := lx_toks lx
                      @ [FAR WRITE (hdr div 2 ^ 13 mod 2 ^ 16) 1 (Some ?word)],
                    lx_last_far := Some (v div 2 ^ 29 mod 8, v div 2 ^ 28 mod 2,
                      v div 2 ^ 23 mod 32, v div 2 ^ 23 mod 64, v div 2 ^ 17 mod 64) \<rparr>)"
    unfolding lexer_step_def a1 by (simp add: dl far)
  from first fdri_step [of _ "v div 2 ^ 29 mod 8" "v div 2 ^ 28 mod 2" "v div 2 ^ 23 mod 32"
      "v div 2 ^ 23 mod 64" "v div 2 ^ 17 mod 64" _ payload]
  show ?thesis by blast
qed

lemma cmd_then_fdri_words:
  "length cmd_then_fdri = 176"
  "word_at cmd_then_fdri 0 = 0x30008001"
  "word_at cmd_then_fdri 4 = 0x00820000"
  "word_at cmd_then_fdri 8 = 0x50000029"
  "take 4 (drop 4 cmd_then_fdri) = [0x00, 0x82, 0x00, 0x00]"
  by (simp_all add: cmd_then_fdri_def word_at_def nth_append)

theorem type1_write_sets_far_witness:
  "word_at cmd_then_fdri 0 = 0x30008001 \<and> word_at cmd_then_fdri 4 = 0x00820000
   \<and> word_at cmd_then_fdri 8 = 0x50000029
   \<and> lexer_step cmd_then_fdri new_lexer
       = Inr \<lparr> lx_pos = 8, lx_toks = [FAR WRITE 0x8004 1 (Some [0x00, 0x82, 0x00, 0x00])],
                lx_result = [], lx_last_far = Some (0, 0, 1, 1, 1) \<rparr>
   \<and> (\<exists>lx'' fs.
         lexer_step cmd_then_fdri
           \<lparr> lx_pos = 8, lx_toks = [FAR WRITE 0x8004 1 (Some [0x00, 0x82, 0x00, 0x00])],
             lx_result = [], lx_last_far = Some (0, 0, 1, 1, 1) \<rparr> = Inr lx''
         \<and> lx_pos lx'' = 176 \<and> lx_result lx'' = fs \<and> length fs = 1
         \<and> fo_block_type (hd fs) = 0 \<and> fo_top_bottom (hd fs) = 0
         \<and> fo_column (hd fs) = 1 \<and> fo_minor (hd fs) = 1 \<and> idx (hd fs) = 0)"
proof -
  define lx1 where "lx1 = \<lparr> lx_pos = 8,
      lx_toks = [FAR WRITE 0x8004 1 (Some [0x00, 0x82, 0x00, 0x00 :: 8 word])],
      lx_result = [], lx_last_far = Some (0 :: nat, 0 :: nat, 1 :: nat, 1 :: nat, 1 :: nat) \<rparr>"
  have room: "lx_pos new_lexer + 8 \<le> length cmd_then_fdri"
    by (simp add: new_lexer_def cmd_then_fdri_words)
  have hdr: "(0x30008001 :: nat) = word_at cmd_then_fdri (lx_pos new_lexer)"
    by (simp add: new_lexer_def cmd_then_fdri_words)
  have v: "(0x00820000 :: nat) = word_at cmd_then_fdri (lx_pos new_lexer + 4)"
    by (simp add: new_lexer_def cmd_then_fdri_words)
  have t: "(0x30008001 :: nat) div 2 ^ 29 mod 8 = 1" by simp
  have o: "(0x30008001 :: nat) div 2 ^ 27 mod 4 = 2" by simp
  have w: "(0x30008001 :: nat) mod 2 ^ 13 = 1" by simp
  have f: "(0x00820000 :: nat) div 2 ^ 29 mod 8 = 0" "(0x00820000 :: nat) div 2 ^ 28 mod 2 = 0"
    "(0x00820000 :: nat) div 2 ^ 23 mod 32 = 1" "(0x00820000 :: nat) div 2 ^ 23 mod 64 = 1"
    "(0x00820000 :: nat) div 2 ^ 17 mod 64 = 1" "(0x30008001 :: nat) div 2 ^ 13 mod 2 ^ 16 = 0x8004"
    by simp_all
  note th = type1_write_sets_far [OF room hdr t o w v, unfolded f]
  from th have first: "lexer_step cmd_then_fdri new_lexer = Inr lx1"
    by (simp add: new_lexer_def lx1_def cmd_then_fdri_words)
  have c: "lx_last_far lx1 = Some (0, 0, 1, 1, 1)
      \<and> lx_pos lx1 + 4 + 4 * 41 \<le> length cmd_then_fdri
      \<and> word_at cmd_then_fdri (lx_pos lx1) div 2 ^ 29 mod 8 = 2
      \<and> word_at cmd_then_fdri (lx_pos lx1) mod 2 ^ 25 = 41 \<and> 0 < (41 :: nat)"
    by (simp add: lx1_def cmd_then_fdri_words)
  from th have "\<forall>lx' n.
      lx_last_far lx' = Some (0, 0, 1, 1, 1)
      \<and> lx_pos lx' + 4 + 4 * n \<le> length cmd_then_fdri
      \<and> word_at cmd_then_fdri (lx_pos lx') div 2 ^ 29 mod 8 = 2
      \<and> word_at cmd_then_fdri (lx_pos lx') mod 2 ^ 25 = n \<and> 0 < n \<longrightarrow>
      (case major_list_for_block 0 of
         None \<Rightarrow> lexer_step cmd_then_fdri lx' = Inl ValueError
       | Some ml \<Rightarrow>
           \<exists>lx'' fs. lexer_step cmd_then_fdri lx' = Inr lx''
             \<and> lx_pos lx'' = lx_pos lx' + 4 + 4 * n
             \<and> lx_result lx'' = lx_result lx' @ fs
             \<and> lx_last_far lx'' = lx_last_far lx'
             \<and> length fs = (n + 40) div 41
             \<and> fo_block_type (hd fs) = 0 \<and> fo_top_bottom (hd fs) = 0
             \<and> fo_column (hd fs) = (if 1 \<in> set ml then 1 else ml ! 0)
             \<and> fo_minor (hd fs) = 1
             \<and> idx (hd fs) = length (lx_result lx'))"
    by (rule conjunct2)
  then have "case major_list_for_block 0 of
         None \<Rightarrow> lexer_step cmd_then_fdri lx1 = Inl ValueError
       | Some ml \<Rightarrow>
           \<exists>lx'' fs. lexer_step cmd_then_fdri lx1 = Inr lx''
             \<and> lx_pos lx'' = lx_pos lx1 + 4 + 4 * 41
             \<and> lx_result lx'' = lx_result lx1 @ fs
             \<and> lx_last_far lx'' = lx_last_far lx1
             \<and> length fs = (41 + 40) div 41
             \<and> fo_block_type (hd fs) = 0 \<and> fo_top_bottom (hd fs) = 0
             \<and> fo_column (hd fs) = (if 1 \<in> set ml then 1 else ml ! 0)
             \<and> fo_minor (hd fs) = 1
             \<and> idx (hd fs) = length (lx_result lx1)"
    using c by blast
  then have second: "\<exists>lx'' fs. lexer_step cmd_then_fdri lx1 = Inr lx''
         \<and> lx_pos lx'' = 176 \<and> lx_result lx'' = fs \<and> length fs = 1
         \<and> fo_block_type (hd fs) = 0 \<and> fo_top_bottom (hd fs) = 0
         \<and> fo_column (hd fs) = 1 \<and> fo_minor (hd fs) = 1 \<and> idx (hd fs) = 0"
    by (auto simp: major_list_for_block_simps lx1_def)
  from first second show ?thesis
    by (simp add: cmd_then_fdri_words lx1_def)
qed

end
